theory Spec2Isabelle
  imports Main "HOL-Library.Code_Target_Nat"
begin

section \<open>Memory, pointers and element types\<close>

text \<open>
  The header \<^verbatim>\<open>vector.h\<close> defines \<^verbatim>\<open>RawMemory<T>\<close>, an owner of raw storage, and
  \<^verbatim>\<open>Vector<T>\<close>, which keeps the first \<^verbatim>\<open>size_\<close> slots of its storage constructed.
  The embedding keeps the heap explicit. An allocation is a block of slots, a slot is
  either raw memory or a live object, and a \<^verbatim>\<open>T*\<close> is the address of a block with an
  element offset. Address \<open>0\<close> is \<^verbatim>\<open>nullptr\<close>. A member \<^verbatim>\<open>x_\<close> of the source is the
  record field \<open>x_f\<close>, since a name may not end in an underscore here.

  Element counts are \<open>nat\<close>. The byte count \<^verbatim>\<open>n * sizeof(T)\<close> that \<^verbatim>\<open>Allocate\<close> passes to
  \<^verbatim>\<open>operator new\<close> is an unchecked \<^verbatim>\<open>size_t\<close> product, so it is taken modulo \<open>2^64\<close>:
  a request whose byte count wraps gets a block with room for fewer than \<open>n\<close> objects,
  while \<^verbatim>\<open>capacity_\<close> records \<open>n\<close>. The other product, \<^verbatim>\<open>2*Capacity()\<close>, is computed
  when \<^verbatim>\<open>size_ == Capacity()\<close>, that is when the block holds \<open>Capacity()\<close> live objects
  of at least one byte each; an array of more than \<^verbatim>\<open>PTRDIFF_MAX\<close> bytes does not exist on
  the 64-bit targets of the code, so this product stays below \<open>2^64\<close> and is left in \<open>nat\<close>.
\<close>

type_synonym addr = nat
type_synonym ptr = "addr \<times> nat"

datatype 'a slot = Uninit | Live 'a

datatype error = BadAlloc | ElementThrow | UndefinedBehaviour

record 'a heap =
  blocks :: "addr \<Rightarrow> 'a slot list option"
  next_addr :: addr
  avail :: nat

definition nullptr :: addr where
  "nullptr = 0"

definition ptr_add :: "ptr \<Rightarrow> nat \<Rightarrow> ptr" where
  "ptr_add p k = (fst p, snd p + k)"

text \<open>
  Pointers of one block are ordered by offset. The order of pointers of two blocks is
  unspecified in C++; the model orders the blocks by address, which is one of the
  results an implementation may give and keeps the comparison a total order.
\<close>

definition ptr_le :: "ptr \<Rightarrow> ptr \<Rightarrow> bool" where
  "ptr_le p q = (fst p < fst q \<or> (fst p = fst q \<and> snd p \<le> snd q))"

definition ptr_lt :: "ptr \<Rightarrow> ptr \<Rightarrow> bool" where
  "ptr_lt p q = (fst p < fst q \<or> (fst p = fst q \<and> snd p < snd q))"

text \<open>
  \<open>p - q\<close>, used as an element count. The difference of pointers of two blocks is
  undefined, and a negative difference, which the source converts to a huge \<^verbatim>\<open>size_t\<close>
  and then walks out of the block with, is folded into the same outcome.
\<close>

definition ptr_diff :: "ptr \<Rightarrow> ptr \<Rightarrow> error + nat" where
  "ptr_diff p q =
     (if fst p = fst q \<and> snd q \<le> snd p then Inr (snd p - snd q)
      else Inl UndefinedBehaviour)"

text \<open>
  What the container needs to know about \<^verbatim>\<open>T\<close>: the two type traits that
  \<^verbatim>\<open>CopyOrMoveInNewData\<close> tests, which values make a constructor or an assignment
  throw, the state a moved-from object is left in, the value of \<^verbatim>\<open>T()\<close>, and
  \<^verbatim>\<open>sizeof(T)\<close>. A copy or a move yields an object equal to its source.
\<close>

record 'a T_ops =
  is_nothrow_move_constructible :: bool
  is_copy_constructible :: bool
  copy_ctor_throws :: "'a \<Rightarrow> bool"
  move_ctor_throws :: "'a \<Rightarrow> bool"
  copy_assign_throws :: "'a \<Rightarrow> bool"
  move_assign_throws :: "'a \<Rightarrow> bool"
  moved_from :: "'a \<Rightarrow> 'a"
  value_init_throws :: bool
  value_init :: 'a
  sizeof_T :: nat

subsection \<open>Single objects\<close>

definition slot_at :: "'a heap \<Rightarrow> ptr \<Rightarrow> 'a slot option" where
  "slot_at h p =
     (case blocks h (fst p) of
        None \<Rightarrow> None
      | Some xs \<Rightarrow> if snd p < length xs then Some (xs ! snd p) else None)"

definition set_slot :: "ptr \<Rightarrow> 'a slot \<Rightarrow> 'a heap \<Rightarrow> 'a heap" where
  "set_slot p s h =
     (case blocks h (fst p) of
        None \<Rightarrow> h
      | Some xs \<Rightarrow> h\<lparr>blocks := (blocks h)(fst p \<mapsto> xs[snd p := s])\<rparr>)"

text \<open>Reading \<open>*p\<close>: the slot has to exist and to hold a live object.\<close>

definition deref :: "'a heap \<Rightarrow> ptr \<Rightarrow> error + 'a" where
  "deref h p =
     (case slot_at h p of
        Some (Live x) \<Rightarrow> Inr x
      | _ \<Rightarrow> Inl UndefinedBehaviour)"

text \<open>
  Placement new puts an object into a slot of an allocation. It does not ask whether
  the slot already holds one: the old object is overwritten without being destroyed.
\<close>

definition construct_at :: "ptr \<Rightarrow> 'a \<Rightarrow> 'a heap \<Rightarrow> error + 'a heap" where
  "construct_at p x h =
     (case slot_at h p of
        None \<Rightarrow> Inl UndefinedBehaviour
      | Some _ \<Rightarrow> Inr (set_slot p (Live x) h))"

definition destroy_at :: "ptr \<Rightarrow> 'a heap \<Rightarrow> error + 'a heap" where
  "destroy_at p h =
     (case slot_at h p of
        Some (Live x) \<Rightarrow> Inr (set_slot p Uninit h)
      | _ \<Rightarrow> Inl UndefinedBehaviour)"

definition assign_at :: "ptr \<Rightarrow> 'a \<Rightarrow> 'a heap \<Rightarrow> error + 'a heap" where
  "assign_at p x h =
     (case slot_at h p of
        Some (Live y) \<Rightarrow> Inr (set_slot p (Live x) h)
      | _ \<Rightarrow> Inl UndefinedBehaviour)"

text \<open>\<^verbatim>\<open>new (dst) T(*src)\<close>\<close>

definition copy_construct ::
  "'a T_ops \<Rightarrow> ptr \<Rightarrow> ptr \<Rightarrow> 'a heap \<Rightarrow> (error + unit) \<times> 'a heap" where
  "copy_construct T dst src h =
     (case deref h src of
        Inl e \<Rightarrow> (Inl e, h)
      | Inr x \<Rightarrow>
          if copy_ctor_throws T x then (Inl ElementThrow, h)
          else (case construct_at dst x h of
                  Inl e \<Rightarrow> (Inl e, h)
                | Inr h' \<Rightarrow> (Inr (), h')))"

text \<open>\<^verbatim>\<open>new (dst) T(std::move(*src))\<close>\<close>

definition move_construct ::
  "'a T_ops \<Rightarrow> ptr \<Rightarrow> ptr \<Rightarrow> 'a heap \<Rightarrow> (error + unit) \<times> 'a heap" where
  "move_construct T dst src h =
     (case deref h src of
        Inl e \<Rightarrow> (Inl e, h)
      | Inr x \<Rightarrow>
          if move_ctor_throws T x then (Inl ElementThrow, h)
          else (case construct_at dst x h of
                  Inl e \<Rightarrow> (Inl e, h)
                | Inr h' \<Rightarrow> (Inr (), set_slot src (Live (moved_from T x)) h')))"

text \<open>\<^verbatim>\<open>*dst = *src\<close>\<close>

definition copy_assign ::
  "'a T_ops \<Rightarrow> ptr \<Rightarrow> ptr \<Rightarrow> 'a heap \<Rightarrow> (error + unit) \<times> 'a heap" where
  "copy_assign T dst src h =
     (case deref h src of
        Inl e \<Rightarrow> (Inl e, h)
      | Inr x \<Rightarrow>
          if copy_assign_throws T x then (Inl ElementThrow, h)
          else (case assign_at dst x h of
                  Inl e \<Rightarrow> (Inl e, h)
                | Inr h' \<Rightarrow> (Inr (), h')))"

text \<open>\<^verbatim>\<open>*dst = std::move(*src)\<close>\<close>

definition move_assign ::
  "'a T_ops \<Rightarrow> ptr \<Rightarrow> ptr \<Rightarrow> 'a heap \<Rightarrow> (error + unit) \<times> 'a heap" where
  "move_assign T dst src h =
     (case deref h src of
        Inl e \<Rightarrow> (Inl e, h)
      | Inr x \<Rightarrow>
          if move_assign_throws T x then (Inl ElementThrow, h)
          else (case assign_at dst x h of
                  Inl e \<Rightarrow> (Inl e, h)
                | Inr h' \<Rightarrow> (Inr (), set_slot src (Live (moved_from T x)) h')))"

subsection \<open>The library algorithms on ranges\<close>

text \<open>\<^verbatim>\<open>std::destroy_n(p, n)\<close>\<close>

fun destroy_n :: "ptr \<Rightarrow> nat \<Rightarrow> 'a heap \<Rightarrow> error + 'a heap" where
  "destroy_n p 0 h = Inr h"
| "destroy_n p (Suc n) h =
     (case destroy_at p h of
        Inl e \<Rightarrow> Inl e
      | Inr h' \<Rightarrow> destroy_n (ptr_add p 1) n h')"

text \<open>
  \<^verbatim>\<open>std::uninitialized_copy_n(first, n, d_first)\<close>. When a constructor throws, the
  objects already constructed in the destination are destroyed (in an order the
  standard leaves open) and the exception goes on.
\<close>

fun uninitialized_copy_n ::
  "'a T_ops \<Rightarrow> ptr \<Rightarrow> nat \<Rightarrow> ptr \<Rightarrow> 'a heap \<Rightarrow> (error + ptr) \<times> 'a heap" where
  "uninitialized_copy_n T first 0 d_first h = (Inr d_first, h)"
| "uninitialized_copy_n T first (Suc n) d_first h =
     (case copy_construct T d_first first h of
        (Inl e, h1) \<Rightarrow> (Inl e, h1)
      | (Inr _, h1) \<Rightarrow>
          (case uninitialized_copy_n T (ptr_add first 1) n (ptr_add d_first 1) h1 of
             (Inl UndefinedBehaviour, h2) \<Rightarrow> (Inl UndefinedBehaviour, h2)
           | (Inl e, h2) \<Rightarrow>
               (case destroy_at d_first h2 of
                  Inl e' \<Rightarrow> (Inl e', h2)
                | Inr h3 \<Rightarrow> (Inl e, h3))
           | (Inr r, h2) \<Rightarrow> (Inr r, h2)))"

text \<open>\<^verbatim>\<open>std::uninitialized_move_n(first, n, d_first)\<close>, with the same clean-up.\<close>

fun uninitialized_move_n ::
  "'a T_ops \<Rightarrow> ptr \<Rightarrow> nat \<Rightarrow> ptr \<Rightarrow> 'a heap \<Rightarrow> (error + ptr) \<times> 'a heap" where
  "uninitialized_move_n T first 0 d_first h = (Inr d_first, h)"
| "uninitialized_move_n T first (Suc n) d_first h =
     (case move_construct T d_first first h of
        (Inl e, h1) \<Rightarrow> (Inl e, h1)
      | (Inr _, h1) \<Rightarrow>
          (case uninitialized_move_n T (ptr_add first 1) n (ptr_add d_first 1) h1 of
             (Inl UndefinedBehaviour, h2) \<Rightarrow> (Inl UndefinedBehaviour, h2)
           | (Inl e, h2) \<Rightarrow>
               (case destroy_at d_first h2 of
                  Inl e' \<Rightarrow> (Inl e', h2)
                | Inr h3 \<Rightarrow> (Inl e, h3))
           | (Inr r, h2) \<Rightarrow> (Inr r, h2)))"

text \<open>\<^verbatim>\<open>std::uninitialized_value_construct_n(first, n)\<close>\<close>

fun uninitialized_value_construct_n ::
  "'a T_ops \<Rightarrow> ptr \<Rightarrow> nat \<Rightarrow> 'a heap \<Rightarrow> (error + ptr) \<times> 'a heap" where
  "uninitialized_value_construct_n T first 0 h = (Inr first, h)"
| "uninitialized_value_construct_n T first (Suc n) h =
     (if value_init_throws T then (Inl ElementThrow, h)
      else (case construct_at first (value_init T) h of
              Inl e \<Rightarrow> (Inl e, h)
            | Inr h1 \<Rightarrow>
                (case uninitialized_value_construct_n T (ptr_add first 1) n h1 of
                   (Inl UndefinedBehaviour, h2) \<Rightarrow> (Inl UndefinedBehaviour, h2)
                 | (Inl e, h2) \<Rightarrow>
                     (case destroy_at first h2 of
                        Inl e' \<Rightarrow> (Inl e', h2)
                      | Inr h3 \<Rightarrow> (Inl e, h3))
                 | (Inr r, h2) \<Rightarrow> (Inr r, h2))))"

text \<open>
  \<^verbatim>\<open>std::copy(first, last, d_first)\<close> and \<^verbatim>\<open>std::move(first, last, d_first)\<close> assign
  from the front; \<^verbatim>\<open>std::move_backward(first, last, d_last)\<close> assigns from the back.
  An exception leaves the elements assigned so far as they are.
\<close>

fun copy_loop ::
  "'a T_ops \<Rightarrow> ptr \<Rightarrow> nat \<Rightarrow> ptr \<Rightarrow> 'a heap \<Rightarrow> (error + ptr) \<times> 'a heap" where
  "copy_loop T first 0 d_first h = (Inr d_first, h)"
| "copy_loop T first (Suc n) d_first h =
     (case copy_assign T d_first first h of
        (Inl e, h1) \<Rightarrow> (Inl e, h1)
      | (Inr _, h1) \<Rightarrow> copy_loop T (ptr_add first 1) n (ptr_add d_first 1) h1)"

definition std_copy ::
  "'a T_ops \<Rightarrow> ptr \<Rightarrow> ptr \<Rightarrow> ptr \<Rightarrow> 'a heap \<Rightarrow> (error + ptr) \<times> 'a heap" where
  "std_copy T first last_it d_first h =
     (case ptr_diff last_it first of
        Inl e \<Rightarrow> (Inl e, h)
      | Inr n \<Rightarrow> copy_loop T first n d_first h)"

fun move_loop ::
  "'a T_ops \<Rightarrow> ptr \<Rightarrow> nat \<Rightarrow> ptr \<Rightarrow> 'a heap \<Rightarrow> (error + ptr) \<times> 'a heap" where
  "move_loop T first 0 d_first h = (Inr d_first, h)"
| "move_loop T first (Suc n) d_first h =
     (case move_assign T d_first first h of
        (Inl e, h1) \<Rightarrow> (Inl e, h1)
      | (Inr _, h1) \<Rightarrow> move_loop T (ptr_add first 1) n (ptr_add d_first 1) h1)"

definition std_move ::
  "'a T_ops \<Rightarrow> ptr \<Rightarrow> ptr \<Rightarrow> ptr \<Rightarrow> 'a heap \<Rightarrow> (error + ptr) \<times> 'a heap" where
  "std_move T first last_it d_first h =
     (case ptr_diff last_it first of
        Inl e \<Rightarrow> (Inl e, h)
      | Inr n \<Rightarrow> move_loop T first n d_first h)"

text \<open>
  In \<open>move_backward_loop T first n d_first\<close> the \<open>n\<close> elements from \<open>first\<close> go to the
  \<open>n\<close> slots from \<open>d_first\<close>, the last one first.
\<close>

fun move_backward_loop ::
  "'a T_ops \<Rightarrow> ptr \<Rightarrow> nat \<Rightarrow> ptr \<Rightarrow> 'a heap \<Rightarrow> (error + unit) \<times> 'a heap" where
  "move_backward_loop T first 0 d_first h = (Inr (), h)"
| "move_backward_loop T first (Suc n) d_first h =
     (case move_assign T (ptr_add d_first n) (ptr_add first n) h of
        (Inl e, h1) \<Rightarrow> (Inl e, h1)
      | (Inr _, h1) \<Rightarrow> move_backward_loop T first n d_first h1)"

definition std_move_backward ::
  "'a T_ops \<Rightarrow> ptr \<Rightarrow> ptr \<Rightarrow> ptr \<Rightarrow> 'a heap \<Rightarrow> (error + ptr) \<times> 'a heap" where
  "std_move_backward T first last_it d_last h =
     (case ptr_diff last_it first of
        Inl e \<Rightarrow> (Inl e, h)
      | Inr n \<Rightarrow>
          if snd d_last < n then (Inl UndefinedBehaviour, h)
          else (case move_backward_loop T first n (fst d_last, snd d_last - n) h of
                  (Inl e, h1) \<Rightarrow> (Inl e, h1)
                | (Inr _, h1) \<Rightarrow> (Inr (fst d_last, snd d_last - n), h1)))"

section \<open>RawMemory\<close>

text \<open>
  \<^verbatim>\<open>buffer_\<close> only ever holds \<^verbatim>\<open>nullptr\<close> or what \<^verbatim>\<open>Allocate\<close> returned, the start of a
  block, so the field is the address of the block.
\<close>

record RawMemory =
  buffer_f :: addr
  capacity_f :: nat

text \<open>
  \<^verbatim>\<open>Allocate(n)\<close> is \<^verbatim>\<open>operator new(n * sizeof(T))\<close> for \<open>n \<noteq> 0\<close>. The product is computed
  in \<^verbatim>\<open>size_t\<close> and not checked, so the request is for \<open>(n * sizeof(T)) mod 2^64\<close> bytes,
  and the block returned has room for as many objects as fit into that many bytes:
  \<open>n\<close> when the product does not wrap, fewer when it does, none when it wraps to 0
  (\<^verbatim>\<open>operator new(0)\<close> returns a non-null pointer to no storage).
  \<^verbatim>\<open>operator new\<close> either throws \<^verbatim>\<open>std::bad_alloc\<close> (here: when fewer slots than it is
  asked for are available) or returns a block that no live allocation overlaps. The
  model hands out the address after \<open>next_addr\<close>; the theorems about operations that
  allocate assume that this address is not in use, which \<open>Allocate\<close> and \<open>Deallocate\<close>
  preserve from any heap with no block above \<open>next_addr\<close>.
  \<^verbatim>\<open>operator delete\<close> of a null pointer does nothing; of any other address that is not
  allocated it is undefined, and the model leaves the heap as it is.
\<close>

definition Allocate :: "'a T_ops \<Rightarrow> nat \<Rightarrow> 'a heap \<Rightarrow> (error + addr) \<times> 'a heap" where
  "Allocate T n h =
     (if n \<noteq> 0 then
        (let bytes = (n * sizeof_T T) mod 2 ^ 64;
             slots = bytes div sizeof_T T
         in if avail h < slots then (Inl BadAlloc, h)
            else (Inr (Suc (next_addr h)),
                  h\<lparr>blocks := (blocks h)(Suc (next_addr h) \<mapsto> replicate slots Uninit),
                    next_addr := Suc (next_addr h),
                    avail := avail h - slots\<rparr>))
      else (Inr nullptr, h))"

definition Deallocate :: "addr \<Rightarrow> 'a heap \<Rightarrow> 'a heap" where
  "Deallocate buf h =
     (case blocks h buf of
        None \<Rightarrow> h
      | Some xs \<Rightarrow> h\<lparr>blocks := (blocks h)(buf := None), avail := avail h + length xs\<rparr>)"

definition RawMemory_default :: RawMemory where
  "RawMemory_default = \<lparr>buffer_f = nullptr, capacity_f = 0\<rparr>"

definition RawMemory_ctor ::
  "'a T_ops \<Rightarrow> nat \<Rightarrow> 'a heap \<Rightarrow> (error + RawMemory) \<times> 'a heap" where
  "RawMemory_ctor T capacity h =
     (case Allocate T capacity h of
        (Inl e, h1) \<Rightarrow> (Inl e, h1)
      | (Inr b, h1) \<Rightarrow> (Inr \<lparr>buffer_f = b, capacity_f = capacity\<rparr>, h1))"

text \<open>The move constructor: the new object and what is left of \<open>rhs\<close>.\<close>

definition RawMemory_move_ctor :: "RawMemory \<Rightarrow> RawMemory \<times> RawMemory" where
  "RawMemory_move_ctor rhs =
     (\<lparr>buffer_f = buffer_f rhs, capacity_f = capacity_f rhs\<rparr>,
      rhs\<lparr>buffer_f := nullptr, capacity_f := 0\<rparr>)"

text \<open>\<^verbatim>\<open>Swap\<close> on two different objects: the object itself and \<open>other\<close> afterwards.\<close>

definition RawMemory_Swap :: "RawMemory \<Rightarrow> RawMemory \<Rightarrow> RawMemory \<times> RawMemory" where
  "RawMemory_Swap this other =
     (this\<lparr>buffer_f := buffer_f other, capacity_f := capacity_f other\<rparr>,
      other\<lparr>buffer_f := buffer_f this, capacity_f := capacity_f this\<rparr>)"

text \<open>
  The move assignment compares the addresses of its two operands, so it is modelled on
  a store of objects: \<open>this\<close> and \<open>rhs\<close> are the places of the operands in the store.
\<close>

definition RawMemory_move_assign ::
  "nat \<Rightarrow> nat \<Rightarrow> (nat \<Rightarrow> RawMemory) \<Rightarrow> (nat \<Rightarrow> RawMemory)" where
  "RawMemory_move_assign this rhs s =
     (if this \<noteq> rhs then
        (case RawMemory_Swap (s this) (s rhs) of
           (a, b) \<Rightarrow> (s(this := a))(rhs := b))
      else s)"

definition RawMemory_dtor :: "RawMemory \<Rightarrow> 'a heap \<Rightarrow> 'a heap" where
  "RawMemory_dtor r h = (if buffer_f r \<noteq> nullptr then Deallocate (buffer_f r) h else h)"

text \<open>
  \<^verbatim>\<open>operator+\<close> and \<^verbatim>\<open>GetAddress\<close>. The \<^verbatim>\<open>assert\<close>s of the source are debug checks; the
  model follows the code without them, where a pointer out of the block is undefined
  behaviour once it is used, and states the asserted conditions as predicates.
\<close>

definition RawMemory_plus :: "RawMemory \<Rightarrow> nat \<Rightarrow> ptr" where
  "RawMemory_plus r offset = (buffer_f r, offset)"

definition GetAddress :: "RawMemory \<Rightarrow> ptr" where
  "GetAddress r = (buffer_f r, 0)"

definition RawMemory_Capacity :: "RawMemory \<Rightarrow> nat" where
  "RawMemory_Capacity r = capacity_f r"

section \<open>Vector\<close>

record Vector =
  data_f :: RawMemory
  size_f :: nat

definition Vector_begin :: "Vector \<Rightarrow> ptr" where
  "Vector_begin v = GetAddress (data_f v)"

definition Vector_end :: "Vector \<Rightarrow> ptr" where
  "Vector_end v = RawMemory_plus (data_f v) (size_f v)"

definition cbegin :: "Vector \<Rightarrow> ptr" where
  "cbegin v = Vector_begin v"

definition cend :: "Vector \<Rightarrow> ptr" where
  "cend v = Vector_end v"

definition Size :: "Vector \<Rightarrow> nat" where
  "Size v = size_f v"

definition Capacity :: "Vector \<Rightarrow> nat" where
  "Capacity v = RawMemory_Capacity (data_f v)"

text \<open>\<^verbatim>\<open>operator[]\<close> returns a reference, here the pointer to the slot.\<close>

definition Vector_index :: "Vector \<Rightarrow> nat \<Rightarrow> ptr" where
  "Vector_index v index = RawMemory_plus (data_f v) index"

definition Vector_default :: Vector where
  "Vector_default = \<lparr>data_f = RawMemory_default, size_f = 0\<rparr>"

text \<open>
  \<^verbatim>\<open>Vector(size_t size)\<close> and \<^verbatim>\<open>Vector(const Vector& other)\<close>. When the elements cannot
  all be constructed, the member \<^verbatim>\<open>data_\<close> is destroyed and there is no vector.
\<close>

definition Vector_size_ctor ::
  "'a T_ops \<Rightarrow> nat \<Rightarrow> 'a heap \<Rightarrow> (error + Vector) \<times> 'a heap" where
  "Vector_size_ctor T n h =
     (case RawMemory_ctor T n h of
        (Inl e, h1) \<Rightarrow> (Inl e, h1)
      | (Inr d, h1) \<Rightarrow>
          (case uninitialized_value_construct_n T (GetAddress d) n h1 of
             (Inl e, h2) \<Rightarrow> (Inl e, RawMemory_dtor d h2)
           | (Inr _, h2) \<Rightarrow> (Inr \<lparr>data_f = d, size_f = n\<rparr>, h2)))"

definition Vector_copy_ctor ::
  "'a T_ops \<Rightarrow> Vector \<Rightarrow> 'a heap \<Rightarrow> (error + Vector) \<times> 'a heap" where
  "Vector_copy_ctor T other h =
     (case RawMemory_ctor T (size_f other) h of
        (Inl e, h1) \<Rightarrow> (Inl e, h1)
      | (Inr d, h1) \<Rightarrow>
          (case uninitialized_copy_n T (GetAddress (data_f other)) (size_f other)
                  (GetAddress d) h1 of
             (Inl e, h2) \<Rightarrow> (Inl e, RawMemory_dtor d h2)
           | (Inr _, h2) \<Rightarrow> (Inr \<lparr>data_f = d, size_f = size_f other\<rparr>, h2)))"

text \<open>The move constructor: the new vector and what is left of \<open>other\<close>.\<close>

definition Vector_move_ctor :: "Vector \<Rightarrow> Vector \<times> Vector" where
  "Vector_move_ctor other =
     (case RawMemory_move_ctor (data_f other) of
        (d, d_other) \<Rightarrow>
          (\<lparr>data_f = d, size_f = size_f other\<rparr>,
           other\<lparr>data_f := d_other, size_f := 0\<rparr>))"

definition Vector_Swap :: "Vector \<Rightarrow> Vector \<Rightarrow> Vector \<times> Vector" where
  "Vector_Swap this other =
     (case RawMemory_Swap (data_f this) (data_f other) of
        (d, d_other) \<Rightarrow>
          (this\<lparr>data_f := d, size_f := size_f other\<rparr>,
           other\<lparr>data_f := d_other, size_f := size_f this\<rparr>))"

definition Vector_dtor :: "Vector \<Rightarrow> 'a heap \<Rightarrow> error + 'a heap" where
  "Vector_dtor v h =
     (case (if size_f v \<noteq> 0 then destroy_n (GetAddress (data_f v)) (size_f v) h
            else Inr h) of
        Inl e \<Rightarrow> Inl e
      | Inr h1 \<Rightarrow> Inr (RawMemory_dtor (data_f v) h1))"

text \<open>
  \<^verbatim>\<open>CopyWithOldCopacity\<close>, for \<open>rhs\<close> another vector than \<open>this\<close>: the conditional
  expression destroys the surplus of \<open>this\<close> or copy-constructs the surplus of \<open>rhs\<close>,
  then \<^verbatim>\<open>std::copy\<close> assigns the common prefix.
\<close>

definition CopyWithOldCopacity ::
  "'a T_ops \<Rightarrow> Vector \<Rightarrow> Vector \<Rightarrow> 'a heap \<Rightarrow> (error + unit) \<times> Vector \<times> 'a heap" where
  "CopyWithOldCopacity T rhs this h =
     (let copy_size = (if Size rhs < Size this then Size rhs else Size this) in
      case (if Size rhs < Size this
            then (case destroy_n (RawMemory_plus (data_f this) (Size rhs))
                         (size_f this - Size rhs) h of
                    Inl e \<Rightarrow> (Inl e, h)
                  | Inr h1 \<Rightarrow> (Inr (), h1))
            else (case uninitialized_copy_n T (RawMemory_plus (data_f rhs) (Size this))
                         (Size rhs - size_f this) (GetAddress (data_f this)) h of
                    (Inl e, h1) \<Rightarrow> (Inl e, h1)
                  | (Inr _, h1) \<Rightarrow> (Inr (), h1))) of
        (Inl e, h1) \<Rightarrow> (Inl e, this, h1)
      | (Inr _, h1) \<Rightarrow>
          (case std_copy T (GetAddress (data_f rhs)) (RawMemory_plus (data_f rhs) copy_size)
                  (GetAddress (data_f this)) h1 of
             (Inl e, h2) \<Rightarrow> (Inl e, this, h2)
           | (Inr _, h2) \<Rightarrow> (Inr (), this\<lparr>size_f := Size rhs\<rparr>, h2)))"

text \<open>
  The two assignment operators compare the addresses of their operands, so they work
  on a store of vectors; \<open>this\<close> and \<open>rhs\<close> are places in the store. The local
  \<^verbatim>\<open>copy\<close> of the copy assignment is destroyed when the operator returns.
\<close>

definition Vector_copy_assign ::
  "'a T_ops \<Rightarrow> nat \<Rightarrow> nat \<Rightarrow> (nat \<Rightarrow> Vector) \<Rightarrow> 'a heap \<Rightarrow>
     (error + unit) \<times> (nat \<Rightarrow> Vector) \<times> 'a heap" where
  "Vector_copy_assign T this rhs s h =
     (if this \<noteq> rhs then
        (if Size (s rhs) > Capacity (s this) then
           (case Vector_copy_ctor T (s rhs) h of
              (Inl e, h1) \<Rightarrow> (Inl e, s, h1)
            | (Inr copy, h1) \<Rightarrow>
                (case Vector_Swap (s this) copy of
                   (v1, copy1) \<Rightarrow>
                     (case Vector_dtor copy1 h1 of
                        Inl e \<Rightarrow> (Inl e, s(this := v1), h1)
                      | Inr h2 \<Rightarrow> (Inr (), s(this := v1), h2))))
         else (case CopyWithOldCopacity T (s rhs) (s this) h of
                 (r, v1, h1) \<Rightarrow> (r, s(this := v1), h1)))
      else (Inr (), s, h))"

definition Vector_move_assign :: "nat \<Rightarrow> nat \<Rightarrow> (nat \<Rightarrow> Vector) \<Rightarrow> (nat \<Rightarrow> Vector)" where
  "Vector_move_assign this rhs s =
     (if this \<noteq> rhs then
        (case RawMemory_Swap (data_f (s this)) (data_f (s rhs)) of
           (d, d_rhs) \<Rightarrow>
             (s(this := (s this)\<lparr>data_f := d, size_f := size_f (s rhs)\<rparr>))
              (rhs := (s rhs)\<lparr>data_f := d_rhs, size_f := size_f (s this)\<rparr>))
      else s)"

definition CopyOrMoveInNewData ::
  "'a T_ops \<Rightarrow> ptr \<Rightarrow> nat \<Rightarrow> ptr \<Rightarrow> 'a heap \<Rightarrow> (error + ptr) \<times> 'a heap" where
  "CopyOrMoveInNewData T from n to h =
     (if is_nothrow_move_constructible T \<or> \<not> is_copy_constructible T
      then uninitialized_move_n T from n to h
      else uninitialized_copy_n T from n to h)"

text \<open>
  In \<^verbatim>\<open>Reserve\<close> the local \<^verbatim>\<open>new_data\<close> is destroyed on every way out: with the new
  block when the relocation throws, with the old one after the \<^verbatim>\<open>Swap\<close>.
\<close>

definition Reserve ::
  "'a T_ops \<Rightarrow> nat \<Rightarrow> Vector \<Rightarrow> 'a heap \<Rightarrow> (error + unit) \<times> Vector \<times> 'a heap" where
  "Reserve T new_capacity v h =
     (if new_capacity \<le> RawMemory_Capacity (data_f v) then (Inr (), v, h)
      else
        (case RawMemory_ctor T new_capacity h of
           (Inl e, h1) \<Rightarrow> (Inl e, v, h1)
         | (Inr new_data, h1) \<Rightarrow>
             (case CopyOrMoveInNewData T (GetAddress (data_f v)) (size_f v)
                     (GetAddress new_data) h1 of
                (Inl e, h2) \<Rightarrow> (Inl e, v, RawMemory_dtor new_data h2)
              | (Inr _, h2) \<Rightarrow>
                  (case destroy_n (GetAddress (data_f v)) (size_f v) h2 of
                     Inl e \<Rightarrow> (Inl e, v, h2)
                   | Inr h3 \<Rightarrow>
                       (case RawMemory_Swap (data_f v) new_data of
                          (d, old) \<Rightarrow> (Inr (), v\<lparr>data_f := d\<rparr>, RawMemory_dtor old h3))))))"

definition Resize ::
  "'a T_ops \<Rightarrow> nat \<Rightarrow> Vector \<Rightarrow> 'a heap \<Rightarrow> (error + unit) \<times> Vector \<times> 'a heap" where
  "Resize T new_size v h =
     (if new_size = size_f v then (Inr (), v, h)
      else if new_size < size_f v then
        (case destroy_n (RawMemory_plus (data_f v) new_size) (size_f v - new_size) h of
           Inl e \<Rightarrow> (Inl e, v, h)
         | Inr h1 \<Rightarrow> (Inr (), v\<lparr>size_f := new_size\<rparr>, h1))
      else
        (case Reserve T new_size v h of
           (Inl e, v1, h1) \<Rightarrow> (Inl e, v1, h1)
         | (Inr _, v1, h1) \<Rightarrow>
             (case uninitialized_value_construct_n T (RawMemory_plus (data_f v1) (size_f v1))
                     (new_size - size_f v1) h1 of
                (Inl e, h2) \<Rightarrow> (Inl e, v1, h2)
              | (Inr _, h2) \<Rightarrow> (Inr (), v1\<lparr>size_f := new_size\<rparr>, h2))))"

definition PopBack :: "Vector \<Rightarrow> 'a heap \<Rightarrow> (error + unit) \<times> Vector \<times> 'a heap" where
  "PopBack v h =
     (if size_f v = 0 then (Inr (), v, h)
      else
        (let v1 = v\<lparr>size_f := size_f v - 1\<rparr> in
         case destroy_at (RawMemory_plus (data_f v1) (size_f v1)) h of
           Inl e \<Rightarrow> (Inl e, v1, h)
         | Inr h1 \<Rightarrow> (Inr (), v1, h1)))"

text \<open>
  The arguments \<^verbatim>\<open>values...\<close> that a new element is constructed from: a \<^verbatim>\<open>const T&\<close> to
  an object of the heap, which may be an element of the vector itself
  (\<open>CopyFrom\<close>), a \<^verbatim>\<open>const T&\<close> to an object elsewhere (\<open>CopyOf\<close>), or a \<^verbatim>\<open>T&&\<close> to an
  object elsewhere (\<open>MoveOf\<close>). \<open>CopyFrom\<close> and \<open>CopyOf\<close> select the \<^verbatim>\<open>const T&\<close>
  overloads of \<^verbatim>\<open>PushBack\<close> and \<^verbatim>\<open>Insert\<close>, \<open>MoveOf\<close> the \<^verbatim>\<open>T&&\<close> overloads.
\<close>

datatype 'a ctor_arg = CopyFrom ptr | CopyOf 'a | MoveOf 'a

text \<open>\<^verbatim>\<open>new (p) T(std::forward<Types>(values)...)\<close>\<close>

definition construct_from ::
  "'a T_ops \<Rightarrow> ptr \<Rightarrow> 'a ctor_arg \<Rightarrow> 'a heap \<Rightarrow> (error + unit) \<times> 'a heap" where
  "construct_from T p arg h =
     (case arg of
        CopyFrom q \<Rightarrow> copy_construct T p q h
      | CopyOf x \<Rightarrow>
          if copy_ctor_throws T x then (Inl ElementThrow, h)
          else (case construct_at p x h of
                  Inl e \<Rightarrow> (Inl e, h)
                | Inr h1 \<Rightarrow> (Inr (), h1))
      | MoveOf x \<Rightarrow>
          if move_ctor_throws T x then (Inl ElementThrow, h)
          else (case construct_at p x h of
                  Inl e \<Rightarrow> (Inl e, h)
                | Inr h1 \<Rightarrow> (Inr (), h1)))"

text \<open>\<^verbatim>\<open>T tmp(std::forward<Types>(values)...)\<close>: the value of the local object.\<close>

definition make_tmp :: "'a T_ops \<Rightarrow> 'a ctor_arg \<Rightarrow> 'a heap \<Rightarrow> error + 'a" where
  "make_tmp T arg h =
     (case arg of
        CopyFrom q \<Rightarrow>
          (case deref h q of
             Inl e \<Rightarrow> Inl e
           | Inr x \<Rightarrow> if copy_ctor_throws T x then Inl ElementThrow else Inr x)
      | CopyOf x \<Rightarrow> if copy_ctor_throws T x then Inl ElementThrow else Inr x
      | MoveOf x \<Rightarrow> if move_ctor_throws T x then Inl ElementThrow else Inr x)"

text \<open>\<^verbatim>\<open>*p = std::move(tmp)\<close> for a local object of value \<open>x\<close>.\<close>

definition move_assign_from_tmp ::
  "'a T_ops \<Rightarrow> ptr \<Rightarrow> 'a \<Rightarrow> 'a heap \<Rightarrow> (error + unit) \<times> 'a heap" where
  "move_assign_from_tmp T p x h =
     (if move_assign_throws T x then (Inl ElementThrow, h)
      else (case assign_at p x h of
              Inl e \<Rightarrow> (Inl e, h)
            | Inr h1 \<Rightarrow> (Inr (), h1)))"

text \<open>
  \<^verbatim>\<open>CopyData\<close>: the handler runs for an exception, destroys the new element and
  \<^verbatim>\<open>from - begin()\<close> elements of the new block, and throws again.
\<close>

definition CopyData ::
  "'a T_ops \<Rightarrow> ptr \<Rightarrow> nat \<Rightarrow> ptr \<Rightarrow> RawMemory \<Rightarrow> ptr \<Rightarrow> Vector \<Rightarrow> 'a heap \<Rightarrow>
     (error + unit) \<times> 'a heap" where
  "CopyData T from n to new_data new_pos v h =
     (case CopyOrMoveInNewData T from n to h of
        (Inl UndefinedBehaviour, h1) \<Rightarrow> (Inl UndefinedBehaviour, h1)
      | (Inl e, h1) \<Rightarrow>
          (case destroy_at new_pos h1 of
             Inl e1 \<Rightarrow> (Inl e1, h1)
           | Inr h2 \<Rightarrow>
               (case ptr_diff from (Vector_begin v) of
                  Inl e1 \<Rightarrow> (Inl e1, h2)
                | Inr k \<Rightarrow>
                    (case destroy_n (GetAddress new_data) k h2 of
                       Inl e1 \<Rightarrow> (Inl e1, h2)
                     | Inr h3 \<Rightarrow> (Inl e, h3))))
      | (Inr _, h1) \<Rightarrow> (Inr (), h1))"

text \<open>
  The conditions of the two \<^verbatim>\<open>assert\<close>s, as the source writes them:
  \<^verbatim>\<open>cpos >= cbegin() || cpos <= cend()\<close> in \<^verbatim>\<open>Emplace\<close> and
  \<^verbatim>\<open>cpos >= cbegin() || cpos < cend()\<close> in \<^verbatim>\<open>Erase\<close>.
\<close>

definition Emplace_assertion :: "Vector \<Rightarrow> ptr \<Rightarrow> bool" where
  "Emplace_assertion v cpos = (ptr_le (cbegin v) cpos \<or> ptr_le cpos (cend v))"

definition Erase_assertion :: "Vector \<Rightarrow> ptr \<Rightarrow> bool" where
  "Erase_assertion v cpos = (ptr_le (cbegin v) cpos \<or> ptr_lt cpos (cend v))"

text \<open>
  \<^verbatim>\<open>Emplace\<close>, in the three parts of its body. \<open>Emplace_realloc\<close> is the branch
  \<^verbatim>\<open>size_ == Capacity()\<close>; the local \<^verbatim>\<open>new_data\<close> is destroyed on every way out of it.
\<close>

definition Emplace_realloc ::
  "'a T_ops \<Rightarrow> ptr \<Rightarrow> 'a ctor_arg \<Rightarrow> Vector \<Rightarrow> 'a heap \<Rightarrow> (error + ptr) \<times> Vector \<times> 'a heap" where
  "Emplace_realloc T pos arg v h =
     (case RawMemory_ctor T (if size_f v = 0 then 1 else 2 * Capacity v) h of
        (Inl e, h1) \<Rightarrow> (Inl e, v, h1)
      | (Inr new_data, h1) \<Rightarrow>
          if size_f v = 0 then
            (let new_pos = GetAddress new_data in
             case construct_from T new_pos arg h1 of
               (Inl e, h2) \<Rightarrow> (Inl e, v, RawMemory_dtor new_data h2)
             | (Inr _, h2) \<Rightarrow>
                 (case RawMemory_Swap (data_f v) new_data of
                    (d, old) \<Rightarrow>
                      (Inr new_pos, v\<lparr>data_f := d, size_f := size_f v + 1\<rparr>,
                       RawMemory_dtor old h2)))
          else
            (case ptr_diff pos (Vector_begin v) of
               Inl e \<Rightarrow> (Inl e, v, h1)
             | Inr before_n \<Rightarrow>
            (case ptr_diff (Vector_end v) pos of
               Inl e \<Rightarrow> (Inl e, v, h1)
             | Inr after_n \<Rightarrow>
            (let new_pos = RawMemory_plus new_data before_n in
             case construct_from T new_pos arg h1 of
               (Inl e, h2) \<Rightarrow> (Inl e, v, RawMemory_dtor new_data h2)
             | (Inr _, h2) \<Rightarrow>
            (case CopyData T (Vector_begin v) before_n (GetAddress new_data)
                    new_data new_pos v h2 of
               (Inl e, h3) \<Rightarrow> (Inl e, v, RawMemory_dtor new_data h3)
             | (Inr _, h3) \<Rightarrow>
            (case CopyData T pos after_n (ptr_add new_pos 1) new_data new_pos v h3 of
               (Inl e, h4) \<Rightarrow> (Inl e, v, RawMemory_dtor new_data h4)
             | (Inr _, h4) \<Rightarrow>
            (case destroy_n (GetAddress (data_f v)) (size_f v) h4 of
               Inl e \<Rightarrow> (Inl e, v, h4)
             | Inr h5 \<Rightarrow>
            (case RawMemory_Swap (data_f v) new_data of
               (d, old) \<Rightarrow>
                 (Inr new_pos, v\<lparr>data_f := d, size_f := size_f v + 1\<rparr>,
                  RawMemory_dtor old h5)))))))))"

text \<open>The branch \<^verbatim>\<open>pos == end()\<close> with room left.\<close>

definition Emplace_at_end ::
  "'a T_ops \<Rightarrow> ptr \<Rightarrow> 'a ctor_arg \<Rightarrow> Vector \<Rightarrow> 'a heap \<Rightarrow> (error + ptr) \<times> Vector \<times> 'a heap" where
  "Emplace_at_end T pos arg v h =
     (case construct_from T pos arg h of
        (Inl e, h1) \<Rightarrow> (Inl e, v, h1)
      | (Inr _, h1) \<Rightarrow> (Inr pos, v\<lparr>size_f := size_f v + 1\<rparr>, h1))"

text \<open>
  The rest of the body: the temporary, the new last element, the shift and the
  assignment of the temporary. \<^verbatim>\<open>end() - 1\<close> on an empty vector points before the block.
\<close>

definition Emplace_shift ::
  "'a T_ops \<Rightarrow> ptr \<Rightarrow> 'a ctor_arg \<Rightarrow> Vector \<Rightarrow> 'a heap \<Rightarrow> (error + ptr) \<times> Vector \<times> 'a heap" where
  "Emplace_shift T pos arg v h =
     (case make_tmp T arg h of
        Inl e \<Rightarrow> (Inl e, v, h)
      | Inr tmp \<Rightarrow>
          if size_f v = 0 then (Inl UndefinedBehaviour, v, h)
          else
            (let last_it = (fst (Vector_end v), snd (Vector_end v) - 1) in
             case move_construct T (Vector_end v) last_it h of
               (Inl e, h1) \<Rightarrow> (Inl e, v, h1)
             | (Inr _, h1) \<Rightarrow>
            (case std_move_backward T pos last_it (Vector_end v) h1 of
               (Inl e, h2) \<Rightarrow> (Inl e, v, h2)
             | (Inr _, h2) \<Rightarrow>
            (case move_assign_from_tmp T pos tmp h2 of
               (Inl e, h3) \<Rightarrow> (Inl e, v, h3)
             | (Inr _, h3) \<Rightarrow> (Inr pos, v\<lparr>size_f := size_f v + 1\<rparr>, h3)))))"

definition Emplace ::
  "'a T_ops \<Rightarrow> ptr \<Rightarrow> 'a ctor_arg \<Rightarrow> Vector \<Rightarrow> 'a heap \<Rightarrow> (error + ptr) \<times> Vector \<times> 'a heap" where
  "Emplace T cpos arg v h =
     (let pos = cpos in
      if size_f v = Capacity v then Emplace_realloc T pos arg v h
      else if pos = Vector_end v then Emplace_at_end T pos arg v h
      else Emplace_shift T pos arg v h)"

definition EmplaceBack ::
  "'a T_ops \<Rightarrow> 'a ctor_arg \<Rightarrow> Vector \<Rightarrow> 'a heap \<Rightarrow> (error + ptr) \<times> Vector \<times> 'a heap" where
  "EmplaceBack T arg v h = Emplace T (Vector_end v) arg v h"

definition PushBack ::
  "'a T_ops \<Rightarrow> 'a ctor_arg \<Rightarrow> Vector \<Rightarrow> 'a heap \<Rightarrow> (error + unit) \<times> Vector \<times> 'a heap" where
  "PushBack T arg v h =
     (case EmplaceBack T arg v h of
        (Inl e, v1, h1) \<Rightarrow> (Inl e, v1, h1)
      | (Inr _, v1, h1) \<Rightarrow> (Inr (), v1, h1))"

definition Insert ::
  "'a T_ops \<Rightarrow> ptr \<Rightarrow> 'a ctor_arg \<Rightarrow> Vector \<Rightarrow> 'a heap \<Rightarrow> (error + ptr) \<times> Vector \<times> 'a heap" where
  "Insert T cpos arg v h = Emplace T cpos arg v h"

definition Erase ::
  "'a T_ops \<Rightarrow> ptr \<Rightarrow> Vector \<Rightarrow> 'a heap \<Rightarrow> (error + ptr) \<times> Vector \<times> 'a heap" where
  "Erase T cpos v h =
     (let pos = cpos in
      case std_move T (ptr_add pos 1) (Vector_end v) pos h of
        (Inl e, h1) \<Rightarrow> (Inl e, v, h1)
      | (Inr _, h1) \<Rightarrow>
          (case PopBack v h1 of
             (Inl e, v1, h2) \<Rightarrow> (Inl e, v1, h2)
           | (Inr _, v1, h2) \<Rightarrow> (Inr pos, v1, h2)))"

section \<open>What a vector holds\<close>

definition block_of :: "'a heap \<Rightarrow> addr \<Rightarrow> 'a slot list" where
  "block_of h a = (case blocks h a of None \<Rightarrow> [] | Some xs \<Rightarrow> xs)"

definition storage :: "Vector \<Rightarrow> 'a heap \<Rightarrow> 'a slot list" where
  "storage v h = block_of h (buffer_f (data_f v))"

definition is_live :: "'a slot \<Rightarrow> bool" where
  "is_live s = (case s of Live x \<Rightarrow> True | Uninit \<Rightarrow> False)"

text \<open>
  The invariant of the specification: the size is at most the capacity, the storage
  has \<open>Capacity\<close> slots, the first \<open>Size\<close> of them hold live objects and the others
  are raw memory.
\<close>

definition Vector_inv :: "Vector \<Rightarrow> 'a heap \<Rightarrow> bool" where
  "Vector_inv v h =
     (Size v \<le> Capacity v \<and>
      length (storage v h) = Capacity v \<and>
      list_all is_live (take (Size v) (storage v h)) \<and>
      list_all (\<lambda>s. \<not> is_live s) (drop (Size v) (storage v h)))"

text \<open>The invariant of \<^verbatim>\<open>RawMemory\<close>: the buffer is null exactly when the capacity is 0.\<close>

definition RawMemory_inv :: "RawMemory \<Rightarrow> bool" where
  "RawMemory_inv r = ((buffer_f r = nullptr) = (capacity_f r = 0))"

text \<open>The vector holds the values \<open>xs\<close>, in this order.\<close>

definition holds :: "Vector \<Rightarrow> 'a heap \<Rightarrow> 'a list \<Rightarrow> bool" where
  "holds v h xs =
     (RawMemory_inv (data_f v) \<and> Vector_inv v h \<and>
      take (Size v) (storage v h) = map Live xs)"

section \<open>Notions for the proofs\<close>

text \<open>
  \<open>slot_map\<close> applies a function to the object of a slot, \<open>block_len\<close> is the number
  of slots of a block, and two heaps have the same shape when they have the same blocks
  with the same lengths and the same allocator state.
\<close>

definition slot_map :: "('a \<Rightarrow> 'a) \<Rightarrow> 'a slot \<Rightarrow> 'a slot" where
  "slot_map f s = (case s of Uninit \<Rightarrow> Uninit | Live x \<Rightarrow> Live (f x))"

definition block_len :: "'a heap \<Rightarrow> addr \<Rightarrow> nat option" where
  "block_len h a = map_option length (blocks h a)"

definition same_shape :: "'a heap \<Rightarrow> 'a heap \<Rightarrow> bool" where
  "same_shape h h1 = (next_addr h1 = next_addr h \<and> avail h1 = avail h \<and> (\<forall>a. block_len h1 a = block_len h a))"

text \<open>
  \<open>arg_value\<close> is the value that the constructor arguments denote in a heap,
  \<open>relocates_by_move\<close> is the condition under which \<^verbatim>\<open>CopyOrMoveInNewData\<close> moves,
  and \<open>ctor_throws\<close> says that copying or moving a value throws.
\<close>

definition arg_value :: "'a heap \<Rightarrow> 'a ctor_arg \<Rightarrow> 'a option" where
  "arg_value h arg =
     (case arg of
        CopyFrom q \<Rightarrow> (case slot_at h q of Some (Live x) \<Rightarrow> Some x | _ \<Rightarrow> None)
      | CopyOf x \<Rightarrow> Some x
      | MoveOf x \<Rightarrow> Some x)"

definition relocates_by_move :: "'a T_ops \<Rightarrow> bool" where
  "relocates_by_move T = (is_nothrow_move_constructible T \<or> \<not> is_copy_constructible T)"

definition ctor_throws :: "'a T_ops \<Rightarrow> 'a \<Rightarrow> bool" where
  "ctor_throws T y = (copy_ctor_throws T y \<or> move_ctor_throws T y)"

text \<open>
  For a relocation by move from the block \<open>b\<close>: \<open>moves_ok\<close> says that the \<open>t\<close> objects
  from offset \<open>i\<close> on can be moved without an exception, \<open>move_throws_at\<close> that the move
  constructor throws for the object at offset \<open>j\<close>, and \<open>moved_range\<close> that the second
  heap differs from the first in the block \<open>b\<close> by having the \<open>t\<close> objects from offset
  \<open>i\<close> on in their moved-from state.
\<close>

definition moves_ok :: "'a T_ops \<Rightarrow> addr \<Rightarrow> nat \<Rightarrow> nat \<Rightarrow> 'a heap \<Rightarrow> bool" where
  "moves_ok T b i t h =
     (\<forall>j<t. \<exists>y. slot_at h (b, i + j) = Some (Live y) \<and> \<not> move_ctor_throws T y)"

definition move_throws_at :: "'a T_ops \<Rightarrow> addr \<Rightarrow> nat \<Rightarrow> 'a heap \<Rightarrow> bool" where
  "move_throws_at T b j h = (\<exists>x. slot_at h (b, j) = Some (Live x) \<and> move_ctor_throws T x)"

definition moved_range :: "'a T_ops \<Rightarrow> addr \<Rightarrow> nat \<Rightarrow> nat \<Rightarrow> 'a heap \<Rightarrow> 'a heap \<Rightarrow> bool" where
  "moved_range T b i t h h1 =
     (\<forall>j. slot_at h1 (b, j) =
        (if i \<le> j \<and> j < i + t then map_option (slot_map (moved_from T)) (slot_at h (b, j))
         else slot_at h (b, j)))"

text \<open>
  \<open>new_element_throws\<close>: the constructor that builds the new element from arguments
  denoting \<open>x\<close> throws; it is the move constructor for a \<^verbatim>\<open>T&&\<close> and the copy constructor
  for a \<^verbatim>\<open>const T&\<close>.
\<close>

definition new_element_throws :: "'a T_ops \<Rightarrow> 'a ctor_arg \<Rightarrow> 'a \<Rightarrow> bool" where
  "new_element_throws T arg x =
     (case arg of
        CopyFrom q \<Rightarrow> copy_ctor_throws T x
      | CopyOf y \<Rightarrow> copy_ctor_throws T x
      | MoveOf y \<Rightarrow> move_ctor_throws T x)"

text \<open>
  No object is larger than \<^verbatim>\<open>PTRDIFF_MAX\<close> bytes, and no type has size 0.
  \<open>storage_is_object\<close> says so of \<^verbatim>\<open>T\<close> and of the array of \<open>Capacity\<close> objects of \<^verbatim>\<open>T\<close>
  that the storage of a vector is. \<open>request_fits T n\<close> says that the byte count of a
  request for \<open>n\<close> objects is computed without wrapping.
\<close>

definition PTRDIFF_MAX :: nat where
  "PTRDIFF_MAX = 2 ^ 63 - 1"

definition storage_is_object :: "'a T_ops \<Rightarrow> Vector \<Rightarrow> bool" where
  "storage_is_object T v =
     (0 < sizeof_T T \<and> sizeof_T T \<le> PTRDIFF_MAX \<and> Capacity v * sizeof_T T \<le> PTRDIFF_MAX)"

definition request_fits :: "'a T_ops \<Rightarrow> nat \<Rightarrow> bool" where
  "request_fits T n = (0 < sizeof_T T \<and> n * sizeof_T T < 2 ^ 64)"

text \<open>
  \<open>doubled n c\<close>: \<open>c\<close> is 0 for \<open>n = 0\<close> and otherwise the least power of two that is
  at least \<open>n\<close>.
\<close>

definition doubled :: "nat \<Rightarrow> nat \<Rightarrow> bool" where
  "doubled n c = ((n = 0 \<and> c = 0) \<or> (\<exists>i. c = 2 ^ i \<and> n \<le> c \<and> c < 2 * n))"

section \<open>Example inputs\<close>

text \<open>
  An element type like \<^verbatim>\<open>int\<close>: four bytes large, nothing throws and a moved-from object
  keeps its value.
\<close>

definition plain_int :: "int T_ops" where
  "plain_int =
     \<lparr>is_nothrow_move_constructible = True, is_copy_constructible = True,
      copy_ctor_throws = (\<lambda>x. False), move_ctor_throws = (\<lambda>x. False),
      copy_assign_throws = (\<lambda>x. False), move_assign_throws = (\<lambda>x. False),
      moved_from = (\<lambda>x. x), value_init_throws = False, value_init = 0,
      sizeof_T = 4\<rparr>"

text \<open>A store with one object at place 0 and another at every other place.\<close>

definition two_objects :: "'o \<Rightarrow> 'o \<Rightarrow> nat \<Rightarrow> 'o" where
  "two_objects a b i = (if i = 0 then a else b)"

text \<open>A heap with the blocks \<open>xs\<close> at address 1 and \<open>ys\<close> at address 2.\<close>

definition heap_of_two :: "'a slot list \<Rightarrow> 'a slot list \<Rightarrow> 'a heap" where
  "heap_of_two xs ys =
     \<lparr>blocks = (\<lambda>a. if a = 1 then Some xs else if a = 2 then Some ys else None),
      next_addr = 2, avail = 16\<rparr>"

definition vector_at :: "addr \<Rightarrow> nat \<Rightarrow> nat \<Rightarrow> Vector" where
  "vector_at b c n = \<lparr>data_f = \<lparr>buffer_f = b, capacity_f = c\<rparr>, size_f = n\<rparr>"

text \<open>
  \<open>dst = src\<close> for \<open>dst\<close> holding \<open>[1]\<close> with capacity 2 and \<open>src\<close> holding \<open>[7, 8]\<close>,
  and for \<open>dst\<close> holding \<open>[1, 2, 3]\<close> with capacity 4 and \<open>src\<close> holding \<open>[7, 8, 9, 10]\<close>.
\<close>

definition assign_one_from_two :: "(error + unit) \<times> (nat \<Rightarrow> Vector) \<times> int heap" where
  "assign_one_from_two =
     Vector_copy_assign plain_int 0 1 (two_objects (vector_at 1 2 1) (vector_at 2 2 2))
       (heap_of_two [Live 1, Uninit] [Live 7, Live 8])"

definition assign_three_from_four :: "(error + unit) \<times> (nat \<Rightarrow> Vector) \<times> int heap" where
  "assign_three_from_four =
     Vector_copy_assign plain_int 0 1 (two_objects (vector_at 1 4 3) (vector_at 2 4 4))
       (heap_of_two [Live 1, Live 2, Live 3, Uninit] [Live 7, Live 8, Live 9, Live 10])"

text \<open>
  Two element types of four bytes whose constructors throw for the value 13 and whose
  moved-from objects are 0: one is copy constructible, so it is relocated by copy; the other is
  move-only, so it is relocated by a move constructor that may throw. Then the
  insertion at the end of the full vector \<open>[5, 13]\<close> for each of them, and the insertion
  of a copy of the element at index 2 at index 1 of \<open>[1, 2, 4]\<close>.
\<close>

definition throwing_copy :: "int T_ops" where
  "throwing_copy =
     \<lparr>is_nothrow_move_constructible = False, is_copy_constructible = True,
      copy_ctor_throws = (\<lambda>x. x = 13), move_ctor_throws = (\<lambda>x. x = 13),
      copy_assign_throws = (\<lambda>x. False), move_assign_throws = (\<lambda>x. False),
      moved_from = (\<lambda>x. 0), value_init_throws = False, value_init = 0,
      sizeof_T = 4\<rparr>"

definition throwing_move_only :: "int T_ops" where
  "throwing_move_only =
     \<lparr>is_nothrow_move_constructible = False, is_copy_constructible = False,
      copy_ctor_throws = (\<lambda>x. False), move_ctor_throws = (\<lambda>x. x = 13),
      copy_assign_throws = (\<lambda>x. False), move_assign_throws = (\<lambda>x. False),
      moved_from = (\<lambda>x. 0), value_init_throws = False, value_init = 0,
      sizeof_T = 4\<rparr>"

definition push_copyable :: "(error + ptr) \<times> Vector \<times> int heap" where
  "push_copyable =
     Emplace throwing_copy (1, 2) (CopyOf 9) (vector_at 1 2 2) (heap_of_two [Live 5, Live 13] [])"

definition emplace_back_copyable :: "(error + ptr) \<times> Vector \<times> int heap" where
  "emplace_back_copyable =
     EmplaceBack throwing_copy (CopyOf 9) (vector_at 1 2 2) (heap_of_two [Live 5, Live 13] [])"

definition push_back_copyable :: "(error + unit) \<times> Vector \<times> int heap" where
  "push_back_copyable =
     PushBack throwing_copy (CopyOf 9) (vector_at 1 2 2) (heap_of_two [Live 5, Live 13] [])"

definition push_move_only :: "(error + ptr) \<times> Vector \<times> int heap" where
  "push_move_only =
     Emplace throwing_move_only (1, 2) (MoveOf 9) (vector_at 1 2 2)
       (heap_of_two [Live 5, Live 13] [])"


text \<open>
  \<^verbatim>\<open>PushBack\<close> for each argument of a list in turn, stopping at the first failure; then
  five such calls on an empty vector, and \<^verbatim>\<open>Reserve(5)\<close> on \<open>[5, 13]\<close> of capacity 2.
\<close>

fun push_all ::
  "'a T_ops \<Rightarrow> 'a ctor_arg list \<Rightarrow> Vector \<Rightarrow> 'a heap \<Rightarrow> (error + unit) \<times> Vector \<times> 'a heap" where
  "push_all T [] v h = (Inr (), v, h)"
| "push_all T (arg # args) v h =
     (case PushBack T arg v h of
        (Inl e, v1, h1) \<Rightarrow> (Inl e, v1, h1)
      | (Inr _, v1, h1) \<Rightarrow> push_all T args v1 h1)"

definition empty_heap :: "int heap" where
  "empty_heap = \<lparr>blocks = (\<lambda>a. None), next_addr = 0, avail = 64\<rparr>"

definition pushed :: "nat \<Rightarrow> (error + unit) \<times> Vector \<times> int heap" where
  "pushed n = push_all plain_int (replicate n (CopyOf 7)) Vector_default empty_heap"

definition reserved :: "(error + unit) \<times> Vector \<times> int heap" where
  "reserved = Reserve plain_int 5 (vector_at 1 2 2) (heap_of_two [Live 5, Live 13] [])"

text \<open>\<^verbatim>\<open>Insert\<close> of 9 at index 1 of the full vector \<open>[5, 13]\<close>.\<close>

definition insert_full :: "(error + ptr) \<times> Vector \<times> int heap" where
  "insert_full =
     Insert plain_int (1, 1) (CopyOf 9) (vector_at 1 2 2) (heap_of_two [Live 5, Live 13] [])"

text \<open>
  \<^verbatim>\<open>Reserve(2^62)\<close> on an empty vector of the four-byte element type, and a \<^verbatim>\<open>PushBack\<close>
  on the vector it leaves.
\<close>

definition reserve_huge :: "(error + unit) \<times> Vector \<times> int heap" where
  "reserve_huge = Reserve plain_int (2 ^ 62) Vector_default empty_heap"

definition push_after_reserve_huge :: "(error + unit) \<times> Vector \<times> int heap" where
  "push_after_reserve_huge =
     PushBack plain_int (CopyOf 7) (fst (snd reserve_huge)) (snd (snd reserve_huge))"

section \<open>Properties\<close>

subsection \<open>Slots and single objects\<close>

lemma same_shape_refl [simp]: "same_shape h h"
  by (simp add: same_shape_def)

lemma same_shape_trans: "same_shape h h1 \<Longrightarrow> same_shape h1 h2 \<Longrightarrow> same_shape h h2"
  by (simp add: same_shape_def)

lemma slot_at_set_slot:
  "slot_at h p = Some s0 \<Longrightarrow> slot_at (set_slot p s h) q = (if q = p then Some s else slot_at h q)"
  by (cases p; cases q) (auto simp: slot_at_def set_slot_def split: option.splits)

lemma same_shape_set_slot [simp]: "same_shape h (set_slot p s h)"
  by (auto simp: same_shape_def set_slot_def block_len_def split: option.splits)

lemma set_slot_same: "slot_at h p = Some s \<Longrightarrow> set_slot p s h = h"
  by (cases p) (auto simp: slot_at_def set_slot_def map_upd_triv split: option.splits if_splits)

lemma set_slot_twice: "set_slot p s (set_slot p s1 h) = set_slot p s h"
  by (cases p) (auto simp: set_slot_def split: option.splits)

lemma slot_at_None_iff:
  "(slot_at h p = None) = (case block_len h (fst p) of None \<Rightarrow> True | Some n \<Rightarrow> n \<le> snd p)"
  by (auto simp: slot_at_def block_len_def split: option.splits)

lemma slot_at_shape: "same_shape h h1 \<Longrightarrow> (slot_at h1 p = None) = (slot_at h p = None)"
  by (simp add: slot_at_None_iff same_shape_def)

lemma copy_construct_ok:
  "slot_at h src = Some (Live x) \<Longrightarrow> slot_at h dst = Some s \<Longrightarrow>
   copy_construct T dst src h =
     (if copy_ctor_throws T x then (Inl ElementThrow, h) else (Inr (), set_slot dst (Live x) h))"
  by (simp add: copy_construct_def deref_def construct_at_def)

lemma move_construct_ok:
  "slot_at h src = Some (Live x) \<Longrightarrow> slot_at h dst = Some s \<Longrightarrow>
   move_construct T dst src h =
     (if move_ctor_throws T x then (Inl ElementThrow, h)
      else (Inr (), set_slot src (Live (moved_from T x)) (set_slot dst (Live x) h)))"
  by (simp add: move_construct_def deref_def construct_at_def)

lemma copy_assign_ok:
  "slot_at h src = Some (Live x) \<Longrightarrow> slot_at h dst = Some (Live y) \<Longrightarrow>
   copy_assign T dst src h =
     (if copy_assign_throws T x then (Inl ElementThrow, h) else (Inr (), set_slot dst (Live x) h))"
  by (simp add: copy_assign_def deref_def assign_at_def)

lemma move_assign_ok:
  "slot_at h src = Some (Live x) \<Longrightarrow> slot_at h dst = Some (Live y) \<Longrightarrow>
   move_assign T dst src h =
     (if move_assign_throws T x then (Inl ElementThrow, h)
      else (Inr (), set_slot src (Live (moved_from T x)) (set_slot dst (Live x) h)))"
  by (simp add: move_assign_def deref_def assign_at_def)

lemma destroy_at_ok:
  "slot_at h p = Some (Live x) \<Longrightarrow> destroy_at p h = Inr (set_slot p Uninit h)"
  by (simp add: destroy_at_def)


subsection \<open>The algorithms on ranges\<close>

lemma destroy_n_spec:
  assumes "\<forall>j<n. \<exists>x. slot_at h (b, i + j) = Some (Live x)"
  shows "\<exists>h1. destroy_n (b, i) n h = Inr h1 \<and> same_shape h h1 \<and>
           (\<forall>a j. slot_at h1 (a, j) =
              (if a = b \<and> i \<le> j \<and> j < i + n then Some Uninit else slot_at h (a, j)))"
  using assms
proof (induction n arbitrary: i h)
  case 0
  then show ?case by auto
next
  case (Suc n)
  from Suc.prems have "\<exists>x. slot_at h (b, i + 0) = Some (Live x)" by blast
  then obtain x where x: "slot_at h (b, i) = Some (Live x)" by auto
  let ?h = "set_slot (b, i) Uninit h"
  have d: "destroy_at (b, i) h = Inr ?h" using x by (rule destroy_at_ok)
  have "\<forall>j<n. \<exists>x. slot_at ?h (b, Suc i + j) = Some (Live x)"
  proof (intro allI impI)
    fix j assume "j < n"
    then have "\<exists>x. slot_at h (b, i + Suc j) = Some (Live x)" using Suc.prems by blast
    then show "\<exists>x. slot_at ?h (b, Suc i + j) = Some (Live x)"
      by (simp add: slot_at_set_slot[OF x])
  qed
  from Suc.IH[OF this] obtain h1 where h1: "destroy_n (b, Suc i) n ?h = Inr h1" "same_shape ?h h1"
    "\<forall>a j. slot_at h1 (a, j) =
        (if a = b \<and> Suc i \<le> j \<and> j < Suc i + n then Some Uninit else slot_at ?h (a, j))"
    by blast
  have "same_shape h h1" using same_shape_trans[OF same_shape_set_slot h1(2)] .
  moreover have "\<forall>a j. slot_at h1 (a, j) =
      (if a = b \<and> i \<le> j \<and> j < i + Suc n then Some Uninit else slot_at h (a, j))"
    using h1(3) by (auto simp: slot_at_set_slot[OF x])
  ultimately show ?case using h1(1) by (simp add: d ptr_add_def)
qed

lemma uninitialized_copy_n_spec:
  assumes "bs \<noteq> bd"
    and "\<forall>j<n. \<exists>x. slot_at h (bs, i + j) = Some (Live x)"
    and "\<forall>j<n. slot_at h (bd, k + j) = Some Uninit"
  shows "(uninitialized_copy_n T (bs, i) n (bd, k) h = (Inl ElementThrow, h) \<and>
            (\<exists>x. copy_ctor_throws T x)) \<or>
         (\<exists>h1. uninitialized_copy_n T (bs, i) n (bd, k) h = (Inr (bd, k + n), h1) \<and>
            same_shape h h1 \<and>
            (\<forall>a j. slot_at h1 (a, j) =
               (if a = bd \<and> k \<le> j \<and> j < k + n then slot_at h (bs, i + (j - k))
                else slot_at h (a, j))))"
  using assms(2,3)
proof (induction n arbitrary: i k h)
  case 0
  then show ?case by auto
next
  case (Suc n)
  from Suc.prems(1) have "\<exists>x. slot_at h (bs, i + 0) = Some (Live x)" by blast
  then obtain x where x: "slot_at h (bs, i) = Some (Live x)" by auto
  from Suc.prems(2) have "slot_at h (bd, k + 0) = Some Uninit" by blast
  then have u: "slot_at h (bd, k) = Some Uninit" by simp
  let ?h = "set_slot (bd, k) (Live x) h"
  have c: "copy_construct T (bd, k) (bs, i) h =
      (if copy_ctor_throws T x then (Inl ElementThrow, h) else (Inr (), ?h))"
    using x u by (rule copy_construct_ok)
  show ?case
  proof (cases "copy_ctor_throws T x")
    case True
    then show ?thesis by (auto simp: c)
  next
    case False
    have p1: "\<forall>j<n. \<exists>x. slot_at ?h (bs, Suc i + j) = Some (Live x)"
    proof (intro allI impI)
      fix j assume "j < n"
      then have "\<exists>x. slot_at h (bs, i + Suc j) = Some (Live x)" using Suc.prems(1) by blast
      then show "\<exists>x. slot_at ?h (bs, Suc i + j) = Some (Live x)"
        using assms(1) by (simp add: slot_at_set_slot[OF u])
    qed
    have p2: "\<forall>j<n. slot_at ?h (bd, Suc k + j) = Some Uninit"
    proof (intro allI impI)
      fix j assume "j < n"
      then have "slot_at h (bd, k + Suc j) = Some Uninit" using Suc.prems(2) by blast
      then show "slot_at ?h (bd, Suc k + j) = Some Uninit"
        by (simp add: slot_at_set_slot[OF u])
    qed
    from Suc.IH[OF p1 p2] show ?thesis
    proof
      assume f: "uninitialized_copy_n T (bs, Suc i) n (bd, Suc k) ?h = (Inl ElementThrow, ?h) \<and>
            (\<exists>x. copy_ctor_throws T x)"
      have "destroy_at (bd, k) ?h = Inr (set_slot (bd, k) Uninit ?h)"
        by (rule destroy_at_ok[of _ _ x]) (simp add: slot_at_set_slot[OF u])
      moreover have "set_slot (bd, k) Uninit ?h = h"
        by (simp add: set_slot_twice set_slot_same[OF u])
      ultimately show ?thesis using False f by (auto simp: c ptr_add_def)
    next
      assume "\<exists>h1. uninitialized_copy_n T (bs, Suc i) n (bd, Suc k) ?h = (Inr (bd, Suc k + n), h1) \<and>
            same_shape ?h h1 \<and>
            (\<forall>a j. slot_at h1 (a, j) =
               (if a = bd \<and> Suc k \<le> j \<and> j < Suc k + n then slot_at ?h (bs, Suc i + (j - Suc k))
                else slot_at ?h (a, j)))"
      then obtain h1 where h1:
        "uninitialized_copy_n T (bs, Suc i) n (bd, Suc k) ?h = (Inr (bd, Suc k + n), h1)"
        "same_shape ?h h1"
        "\<forall>a j. slot_at h1 (a, j) =
               (if a = bd \<and> Suc k \<le> j \<and> j < Suc k + n then slot_at ?h (bs, Suc i + (j - Suc k))
                else slot_at ?h (a, j))"
        by blast
      have "same_shape h h1" using same_shape_trans[OF same_shape_set_slot h1(2)] .
      moreover have "\<forall>a j. slot_at h1 (a, j) =
               (if a = bd \<and> k \<le> j \<and> j < k + Suc n then slot_at h (bs, i + (j - k))
                else slot_at h (a, j))"
      proof (intro allI)
        fix a j
        have e: "Suc k \<le> j \<Longrightarrow> Suc i + (j - Suc k) = i + (j - k)" by arith
        show "slot_at h1 (a, j) =
               (if a = bd \<and> k \<le> j \<and> j < k + Suc n then slot_at h (bs, i + (j - k))
                else slot_at h (a, j))"
        proof (cases "a = bd \<and> Suc k \<le> j \<and> j < Suc k + n")
          case True
          then show ?thesis using h1(3) assms(1) e by (simp add: slot_at_set_slot[OF u])
        next
          case False
          then show ?thesis using h1(3) assms(1) x by (auto simp: slot_at_set_slot[OF u])
        qed
      qed
      ultimately show ?thesis using False h1(1) by (simp add: c ptr_add_def)
    qed
  qed
qed


lemma move_backward_loop_spec:
  assumes "\<forall>j\<le>n. \<exists>x. slot_at h (b, i + j) = Some (Live x)"
  shows "(\<exists>h1 x. move_backward_loop T (b, i) n (b, Suc i) h = (Inl ElementThrow, h1) \<and>
            move_assign_throws T x) \<or>
         (\<exists>h1. move_backward_loop T (b, i) n (b, Suc i) h = (Inr (), h1) \<and>
            same_shape h h1 \<and>
            (\<forall>a j. slot_at h1 (a, j) =
               (if a = b \<and> i < j \<and> j \<le> i + n then slot_at h (b, j - 1)
                else if a = b \<and> j = i \<and> 0 < n
                  then map_option (slot_map (moved_from T)) (slot_at h (b, i))
                else slot_at h (a, j))))"
  using assms
proof (induction n arbitrary: h)
  case 0
  then show ?case by auto
next
  case (Suc n)
  have "n \<le> Suc n" by simp
  with Suc.prems have "\<exists>x. slot_at h (b, i + n) = Some (Live x)" by blast
  then obtain x where x: "slot_at h (b, i + n) = Some (Live x)" by auto
  from Suc.prems have "\<exists>y. slot_at h (b, i + Suc n) = Some (Live y)" by blast
  then obtain y where y: "slot_at h (b, Suc (i + n)) = Some (Live y)" by auto
  define hh where
    "hh = set_slot (b, i + n) (Live (moved_from T x)) (set_slot (b, Suc (i + n)) (Live x) h)"
  have x1: "slot_at (set_slot (b, Suc (i + n)) (Live x) h) (b, i + n) = Some (Live x)"
    using x by (simp add: slot_at_set_slot[OF y])
  have m: "move_assign T (b, Suc (i + n)) (b, i + n) h =
      (if move_assign_throws T x then (Inl ElementThrow, h) else (Inr (), hh))"
    unfolding hh_def using x y by (rule move_assign_ok)
  have sl: "slot_at hh (a, j) =
      (if a = b \<and> j = i + n then Some (Live (moved_from T x))
       else if a = b \<and> j = Suc (i + n) then Some (Live x) else slot_at h (a, j))" for a j
    by (simp add: hh_def slot_at_set_slot[OF x1] slot_at_set_slot[OF y])
  have sh: "same_shape h hh"
    unfolding hh_def using same_shape_trans[OF same_shape_set_slot same_shape_set_slot] .
  show ?case
  proof (cases "move_assign_throws T x")
    case True
    then show ?thesis by (auto simp: m ptr_add_def)
  next
    case False
    have pre: "\<forall>j\<le>n. \<exists>x. slot_at hh (b, i + j) = Some (Live x)"
    proof (intro allI impI)
      fix j assume "j \<le> n"
      then have "j \<le> Suc n" by simp
      with Suc.prems have "\<exists>x. slot_at h (b, i + j) = Some (Live x)" by blast
      then show "\<exists>x. slot_at hh (b, i + j) = Some (Live x)" by (auto simp: sl)
    qed
    from Suc.IH[OF pre] show ?thesis
    proof
      assume "\<exists>h1 x. move_backward_loop T (b, i) n (b, Suc i) hh = (Inl ElementThrow, h1) \<and>
            move_assign_throws T x"
      then show ?thesis using False by (auto simp: m ptr_add_def)
    next
      assume "\<exists>h1. move_backward_loop T (b, i) n (b, Suc i) hh = (Inr (), h1) \<and>
            same_shape hh h1 \<and>
            (\<forall>a j. slot_at h1 (a, j) =
               (if a = b \<and> i < j \<and> j \<le> i + n then slot_at hh (b, j - 1)
                else if a = b \<and> j = i \<and> 0 < n
                  then map_option (slot_map (moved_from T)) (slot_at hh (b, i))
                else slot_at hh (a, j)))"
      then obtain h1 where h1: "move_backward_loop T (b, i) n (b, Suc i) hh = (Inr (), h1)"
        "same_shape hh h1"
        "\<forall>a j. slot_at h1 (a, j) =
               (if a = b \<and> i < j \<and> j \<le> i + n then slot_at hh (b, j - 1)
                else if a = b \<and> j = i \<and> 0 < n
                  then map_option (slot_map (moved_from T)) (slot_at hh (b, i))
                else slot_at hh (a, j))"
        by blast
      have "same_shape h h1" using sh h1(2) by (rule same_shape_trans)
      moreover have "\<forall>a j. slot_at h1 (a, j) =
               (if a = b \<and> i < j \<and> j \<le> i + Suc n then slot_at h (b, j - 1)
                else if a = b \<and> j = i \<and> 0 < Suc n
                  then map_option (slot_map (moved_from T)) (slot_at h (b, i))
                else slot_at h (a, j))"
      proof (intro allI)
        fix a j
        show "slot_at h1 (a, j) =
               (if a = b \<and> i < j \<and> j \<le> i + Suc n then slot_at h (b, j - 1)
                else if a = b \<and> j = i \<and> 0 < Suc n
                  then map_option (slot_map (moved_from T)) (slot_at h (b, i))
                else slot_at h (a, j))"
        proof (cases "a = b \<and> i < j \<and> j \<le> i + n")
          case True
          then have "j - 1 \<noteq> i + n" "j - 1 \<noteq> Suc (i + n)" by arith+
          then show ?thesis using True h1(3) by (simp add: sl)
        next
          case False
          then show ?thesis using h1(3) x by (auto simp: sl slot_map_def)
        qed
      qed
      ultimately show ?thesis using False h1(1) by (simp add: m ptr_add_def)
    qed
  qed
qed



lemma uninitialized_move_n_spec:
  assumes "bs \<noteq> bd"
    and "\<forall>j<n. \<exists>x. slot_at h (bs, i + j) = Some (Live x)"
    and "\<forall>j<n. slot_at h (bd, k + j) = Some Uninit"
  shows "(\<exists>h1 t x. uninitialized_move_n T (bs, i) n (bd, k) h = (Inl ElementThrow, h1) \<and>
            t < n \<and> slot_at h (bs, i + t) = Some (Live x) \<and> move_ctor_throws T x \<and>
            (\<forall>j<t. \<exists>y. slot_at h (bs, i + j) = Some (Live y) \<and> \<not> move_ctor_throws T y) \<and>
            same_shape h h1 \<and>
            (\<forall>a j. slot_at h1 (a, j) =
               (if a = bs \<and> i \<le> j \<and> j < i + t
                  then map_option (slot_map (moved_from T)) (slot_at h (a, j))
                else slot_at h (a, j)))) \<or>
         (\<exists>h1. uninitialized_move_n T (bs, i) n (bd, k) h = (Inr (bd, k + n), h1) \<and>
            (\<forall>j<n. \<exists>y. slot_at h (bs, i + j) = Some (Live y) \<and> \<not> move_ctor_throws T y) \<and>
            same_shape h h1 \<and>
            (\<forall>a j. slot_at h1 (a, j) =
               (if a = bd \<and> k \<le> j \<and> j < k + n then slot_at h (bs, i + (j - k))
                else if a = bs \<and> i \<le> j \<and> j < i + n
                  then map_option (slot_map (moved_from T)) (slot_at h (a, j))
                else slot_at h (a, j))))"
  using assms(2,3)
proof (induction n arbitrary: i k h)
  case 0
  then show ?case by auto
next
  case (Suc n)
  from Suc.prems(1) have "\<exists>x. slot_at h (bs, i + 0) = Some (Live x)" by blast
  then obtain x where x: "slot_at h (bs, i) = Some (Live x)" by auto
  from Suc.prems(2) have "slot_at h (bd, k + 0) = Some Uninit" by blast
  then have u: "slot_at h (bd, k) = Some Uninit" by simp
  define hh where
    "hh = set_slot (bs, i) (Live (moved_from T x)) (set_slot (bd, k) (Live x) h)"
  have x1: "slot_at (set_slot (bd, k) (Live x) h) (bs, i) = Some (Live x)"
    using x assms(1) by (simp add: slot_at_set_slot[OF u])
  have c: "move_construct T (bd, k) (bs, i) h =
      (if move_ctor_throws T x then (Inl ElementThrow, h) else (Inr (), hh))"
    unfolding hh_def using x u by (rule move_construct_ok)
  have sl: "slot_at hh (a, j) =
      (if a = bs \<and> j = i then Some (Live (moved_from T x))
       else if a = bd \<and> j = k then Some (Live x) else slot_at h (a, j))" for a j
    by (simp add: hh_def slot_at_set_slot[OF x1] slot_at_set_slot[OF u])
  have sh: "same_shape h hh"
    unfolding hh_def using same_shape_trans[OF same_shape_set_slot same_shape_set_slot] .
  have src: "slot_at hh (bs, Suc i + j) = slot_at h (bs, i + Suc j)" for j
    using assms(1) by (simp add: sl)
  show ?case
  proof (cases "move_ctor_throws T x")
    case True
    have "uninitialized_move_n T (bs, i) (Suc n) (bd, k) h = (Inl ElementThrow, h)"
      using True by (simp add: c)
    moreover have "slot_at h (bs, i + 0) = Some (Live x)" using x by simp
    moreover have "0 < Suc n" by simp
    moreover have "\<forall>j<0::nat. \<exists>y. slot_at h (bs, i + j) = Some (Live y) \<and> \<not> move_ctor_throws T y"
      by simp
    moreover have "\<forall>a j. slot_at h (a, j) =
               (if a = bs \<and> i \<le> j \<and> j < i + 0
                  then map_option (slot_map (moved_from T)) (slot_at h (a, j))
                else slot_at h (a, j))"
      by auto
    ultimately show ?thesis using True same_shape_refl[of h]
      by (intro disjI1 exI[of _ h] exI[of _ 0] exI[of _ x]) blast
  next
    case False
    have p1: "\<forall>j<n. \<exists>x. slot_at hh (bs, Suc i + j) = Some (Live x)"
    proof (intro allI impI)
      fix j assume "j < n"
      then have "\<exists>x. slot_at h (bs, i + Suc j) = Some (Live x)" using Suc.prems(1) by blast
      then show "\<exists>x. slot_at hh (bs, Suc i + j) = Some (Live x)"
        by (simp only: src)
    qed
    have p2: "\<forall>j<n. slot_at hh (bd, Suc k + j) = Some Uninit"
    proof (intro allI impI)
      fix j assume "j < n"
      then have "slot_at h (bd, k + Suc j) = Some Uninit" using Suc.prems(2) by blast
      then show "slot_at hh (bd, Suc k + j) = Some Uninit"
        using assms(1) by (simp add: sl)
    qed
    have nothrow: "\<forall>j<Suc t. \<exists>y. slot_at h (bs, i + j) = Some (Live y) \<and> \<not> move_ctor_throws T y"
      if "\<forall>j<t. \<exists>y. slot_at hh (bs, Suc i + j) = Some (Live y) \<and> \<not> move_ctor_throws T y"
      for t
    proof (intro allI impI)
      fix j assume j: "j < Suc t"
      show "\<exists>y. slot_at h (bs, i + j) = Some (Live y) \<and> \<not> move_ctor_throws T y"
      proof (cases j)
        case 0
        then show ?thesis using x False by simp
      next
        case (Suc j')
        then have "j' < t" using j by simp
        with that have "\<exists>y. slot_at hh (bs, Suc i + j') = Some (Live y) \<and> \<not> move_ctor_throws T y"
          by blast
        then show ?thesis unfolding src Suc .
      qed
    qed
    from Suc.IH[OF p1 p2] show ?thesis
    proof
      assume "\<exists>h1 t x. uninitialized_move_n T (bs, Suc i) n (bd, Suc k) hh = (Inl ElementThrow, h1) \<and>
            t < n \<and> slot_at hh (bs, Suc i + t) = Some (Live x) \<and> move_ctor_throws T x \<and>
            (\<forall>j<t. \<exists>y. slot_at hh (bs, Suc i + j) = Some (Live y) \<and> \<not> move_ctor_throws T y) \<and>
            same_shape hh h1 \<and>
            (\<forall>a j. slot_at h1 (a, j) =
               (if a = bs \<and> Suc i \<le> j \<and> j < Suc i + t
                  then map_option (slot_map (moved_from T)) (slot_at hh (a, j))
                else slot_at hh (a, j)))"
      then obtain h1 t z where f:
        "uninitialized_move_n T (bs, Suc i) n (bd, Suc k) hh = (Inl ElementThrow, h1)"
        "t < n" "slot_at hh (bs, Suc i + t) = Some (Live z)" "move_ctor_throws T z"
        "\<forall>j<t. \<exists>y. slot_at hh (bs, Suc i + j) = Some (Live y) \<and> \<not> move_ctor_throws T y"
        "same_shape hh h1"
        "\<And>a j. slot_at h1 (a, j) =
               (if a = bs \<and> Suc i \<le> j \<and> j < Suc i + t
                  then map_option (slot_map (moved_from T)) (slot_at hh (a, j))
                else slot_at hh (a, j))"
        by blast
      define hf where "hf = set_slot (bd, k) Uninit h1"
      have l: "slot_at h1 (bd, k) = Some (Live x)"
        using assms(1) by (simp add: f(7) sl)
      have d: "destroy_at (bd, k) h1 = Inr hf"
        unfolding hf_def using l by (rule destroy_at_ok)
      have r: "uninitialized_move_n T (bs, i) (Suc n) (bd, k) h = (Inl ElementThrow, hf)"
        using False by (simp add: c ptr_add_def f(1) d)
      have t1: "Suc t < Suc n" using f(2) by simp
      have z: "slot_at h (bs, i + Suc t) = Some (Live z)" using f(3) unfolding src .
      have shf: "same_shape h hf"
        unfolding hf_def
        using same_shape_trans[OF same_shape_trans[OF sh f(6)] same_shape_set_slot] .
      have slf: "\<forall>a j. slot_at hf (a, j) =
               (if a = bs \<and> i \<le> j \<and> j < i + Suc t
                  then map_option (slot_map (moved_from T)) (slot_at h (a, j))
                else slot_at h (a, j))"
      proof (intro allI)
        fix a j
        show "slot_at hf (a, j) =
               (if a = bs \<and> i \<le> j \<and> j < i + Suc t
                  then map_option (slot_map (moved_from T)) (slot_at h (a, j))
                else slot_at h (a, j))"
        proof (cases "a = bs \<and> Suc i \<le> j \<and> j < Suc i + t")
          case True
          then have "j \<noteq> i" by arith
          then show ?thesis using True assms(1)
            by (simp add: hf_def slot_at_set_slot[OF l] f(7) sl)
        next
          case nt: False
          show ?thesis
          proof (cases "a = bs \<and> j = i")
            case True
            then show ?thesis using assms(1) x
              by (simp add: hf_def slot_at_set_slot[OF l] f(7) sl slot_map_def)
          next
            case False
            then show ?thesis using nt u
              by (auto simp: hf_def slot_at_set_slot[OF l] f(7) sl)
          qed
        qed
      qed
      show ?thesis
        using r t1 z f(4) nothrow[OF f(5)] shf slf
        by (intro disjI1 exI[of _ hf] exI[of _ "Suc t"] exI[of _ z]) blast
    next
      assume "\<exists>h1. uninitialized_move_n T (bs, Suc i) n (bd, Suc k) hh = (Inr (bd, Suc k + n), h1) \<and>
            (\<forall>j<n. \<exists>y. slot_at hh (bs, Suc i + j) = Some (Live y) \<and> \<not> move_ctor_throws T y) \<and>
            same_shape hh h1 \<and>
            (\<forall>a j. slot_at h1 (a, j) =
               (if a = bd \<and> Suc k \<le> j \<and> j < Suc k + n then slot_at hh (bs, Suc i + (j - Suc k))
                else if a = bs \<and> Suc i \<le> j \<and> j < Suc i + n
                  then map_option (slot_map (moved_from T)) (slot_at hh (a, j))
                else slot_at hh (a, j)))"
      then obtain h1 where h1:
        "uninitialized_move_n T (bs, Suc i) n (bd, Suc k) hh = (Inr (bd, Suc k + n), h1)"
        "\<forall>j<n. \<exists>y. slot_at hh (bs, Suc i + j) = Some (Live y) \<and> \<not> move_ctor_throws T y"
        "same_shape hh h1"
        "\<forall>a j. slot_at h1 (a, j) =
               (if a = bd \<and> Suc k \<le> j \<and> j < Suc k + n then slot_at hh (bs, Suc i + (j - Suc k))
                else if a = bs \<and> Suc i \<le> j \<and> j < Suc i + n
                  then map_option (slot_map (moved_from T)) (slot_at hh (a, j))
                else slot_at hh (a, j))"
        by blast
      have "same_shape h h1" using sh h1(3) by (rule same_shape_trans)
      moreover have "\<forall>a j. slot_at h1 (a, j) =
               (if a = bd \<and> k \<le> j \<and> j < k + Suc n then slot_at h (bs, i + (j - k))
                else if a = bs \<and> i \<le> j \<and> j < i + Suc n
                  then map_option (slot_map (moved_from T)) (slot_at h (a, j))
                else slot_at h (a, j))"
      proof (intro allI)
        fix a j
        have e: "Suc k \<le> j \<Longrightarrow> Suc i + (j - Suc k) = i + (j - k)" by arith
        show "slot_at h1 (a, j) =
               (if a = bd \<and> k \<le> j \<and> j < k + Suc n then slot_at h (bs, i + (j - k))
                else if a = bs \<and> i \<le> j \<and> j < i + Suc n
                  then map_option (slot_map (moved_from T)) (slot_at h (a, j))
                else slot_at h (a, j))"
        proof (cases "a = bd \<and> Suc k \<le> j \<and> j < Suc k + n")
          case True
          then have "slot_at h1 (a, j) = slot_at hh (bs, i + (j - k))"
            using h1(4) e by simp
          moreover have "i + (j - k) \<noteq> i" using True by arith
          ultimately show ?thesis using True assms(1) by (simp add: sl)
        next
          case False
          then show ?thesis using h1(4) assms(1) x by (auto simp: sl slot_map_def)
        qed
      qed
      ultimately show ?thesis using False h1(1) nothrow[OF h1(2)]
        by (simp add: c ptr_add_def)
    qed
  qed
qed

subsection \<open>Vectors and blocks\<close>

lemma is_live_simps [simp]: "is_live (Live x)" "\<not> is_live Uninit"
  by (simp_all add: is_live_def)

lemma not_live_iff: "(\<not> is_live s) = (s = Uninit)"
  by (cases s) simp_all

lemma slot_at_block:
  "slot_at h (a, j) = (if j < length (block_of h a) then Some (block_of h a ! j) else None)"
  by (simp add: slot_at_def block_of_def split: option.splits)

lemma holds_iff:
  "holds v h xs \<longleftrightarrow>
     RawMemory_inv (data_f v) \<and> size_f v = length xs \<and> length xs \<le> capacity_f (data_f v) \<and>
     (\<forall>j. slot_at h (buffer_f (data_f v), j) =
        (if j < length xs then Some (Live (xs ! j))
         else if j < capacity_f (data_f v) then Some Uninit else None))"
  (is "?L \<longleftrightarrow> ?R")
proof
  assume L: ?L
  let ?ys = "block_of h (buffer_f (data_f v))"
  from L have inv: "RawMemory_inv (data_f v)" and le: "size_f v \<le> capacity_f (data_f v)"
    and len: "length ?ys = capacity_f (data_f v)"
    and rest: "list_all (\<lambda>s. \<not> is_live s) (drop (size_f v) ?ys)"
    and tk: "take (size_f v) ?ys = map Live xs"
    by (simp_all add: holds_def Vector_inv_def Size_def Capacity_def RawMemory_Capacity_def storage_def)
  from tk le len have n: "size_f v = length xs"
    by (metis length_map length_take min.absorb2)
  have "slot_at h (buffer_f (data_f v), j) =
        (if j < length xs then Some (Live (xs ! j))
         else if j < capacity_f (data_f v) then Some Uninit else None)" for j
  proof (cases "j < length xs")
    case True
    then have "?ys ! j = take (size_f v) ?ys ! j" using n by simp
    also have "\<dots> = Live (xs ! j)" using True by (simp add: tk)
    finally show ?thesis using True le len n by (simp add: slot_at_block)
  next
    case False
    show ?thesis
    proof (cases "j < capacity_f (data_f v)")
      case True
      then have "drop (size_f v) ?ys ! (j - size_f v) = ?ys ! j"
        using False n len by simp
      moreover have "j - size_f v < length (drop (size_f v) ?ys)"
        using True False n len by simp
      ultimately have "\<not> is_live (?ys ! j)"
        using rest by (metis list_all_length)
      then show ?thesis using True False len by (simp add: slot_at_block not_live_iff)
    next
      case False
      then show ?thesis using len le n by (simp add: slot_at_block)
    qed
  qed
  then show ?R using inv n le by simp
next
  assume R: ?R
  let ?ys = "block_of h (buffer_f (data_f v))"
  let ?c = "capacity_f (data_f v)"
  from R have inv: "RawMemory_inv (data_f v)" and n: "size_f v = length xs" and le: "length xs \<le> ?c"
    and sl: "\<And>j. slot_at h (buffer_f (data_f v), j) =
        (if j < length xs then Some (Live (xs ! j)) else if j < ?c then Some Uninit else None)"
    by simp_all
  have len: "length ?ys = ?c"
  proof (rule antisym)
    show "length ?ys \<le> ?c"
    proof (rule ccontr)
      assume "\<not> length ?ys \<le> ?c"
      then have "?c < length ?ys" by simp
      then have "slot_at h (buffer_f (data_f v), ?c) \<noteq> None" by (simp add: slot_at_block)
      then show False using le by (simp add: sl)
    qed
    show "?c \<le> length ?ys"
    proof (rule ccontr)
      assume "\<not> ?c \<le> length ?ys"
      then have lt: "length ?ys < ?c" by simp
      then have "slot_at h (buffer_f (data_f v), length ?ys) = None" by (simp add: slot_at_block)
      then show False using lt by (simp add: sl split: if_splits)
    qed
  qed
  have nth: "?ys ! j = (if j < length xs then Live (xs ! j) else Uninit)" if "j < ?c" for j
    using sl[of j] that len by (simp add: slot_at_block split: if_splits)
  have tk: "take (size_f v) ?ys = map Live xs"
    by (rule nth_equalityI) (use n le len nth in auto)
  have live: "list_all is_live (take (size_f v) ?ys)"
    by (simp add: tk list_all_length)
  have rest: "list_all (\<lambda>s. \<not> is_live s) (drop (size_f v) ?ys)"
    using n le len nth by (auto simp: list_all_length)
  show ?L
    using inv n le len tk live rest
    by (simp add: holds_def Vector_inv_def Size_def Capacity_def RawMemory_Capacity_def storage_def)
qed

lemma blocks_eqI:
  assumes "block_len h1 a = block_len h a" and "\<And>j. slot_at h1 (a, j) = slot_at h (a, j)"
  shows "blocks h1 a = blocks h a"
proof (cases "blocks h a")
  case None
  then show ?thesis using assms(1) by (simp add: block_len_def)
next
  case (Some ys)
  then obtain zs where zs: "blocks h1 a = Some zs" "length zs = length ys"
    using assms(1) by (auto simp: block_len_def)
  have "zs = ys"
  proof (rule nth_equalityI)
    show "length zs = length ys" by (rule zs(2))
    fix j assume "j < length zs"
    then show "zs ! j = ys ! j"
      using assms(2)[of j] zs Some by (simp add: slot_at_def)
  qed
  then show ?thesis using zs Some by simp
qed

lemma request_fits_slots:
  assumes "request_fits T n"
  shows "(n * sizeof_T T) mod 2 ^ 64 div sizeof_T T = n"
  using assms by (simp add: request_fits_def)

lemma storage_is_object_fits:
  assumes "storage_is_object T v"
  shows "request_fits T (if size_f v = 0 then 1 else 2 * Capacity v)"
proof -
  from assms have s: "0 < sizeof_T T" "sizeof_T T \<le> 2 ^ 63 - 1"
    "Capacity v * sizeof_T T \<le> 2 ^ 63 - 1"
    by (simp_all add: storage_is_object_def PTRDIFF_MAX_def)
  have "sizeof_T T < 2 ^ 64" using s(2) by simp
  moreover have "2 * Capacity v * sizeof_T T < 2 ^ 64" using s(3) by simp
  ultimately show ?thesis using s(1) by (simp add: request_fits_def)
qed

lemma Allocate_spec:
  assumes "0 < n" and "blocks h (Suc (next_addr h)) = None" and "request_fits T n"
  shows "(Allocate T n h = (Inl BadAlloc, h) \<and> avail h < n) \<or>
         (\<exists>h1. Allocate T n h = (Inr (Suc (next_addr h)), h1) \<and> n \<le> avail h \<and>
            avail h1 = avail h - n \<and>
            blocks h1 = (blocks h)(Suc (next_addr h) \<mapsto> replicate n Uninit) \<and>
            (\<forall>a j. slot_at h1 (a, j) =
               (if a = Suc (next_addr h) then (if j < n then Some Uninit else None)
                else slot_at h (a, j))))"
  using assms(1,2) request_fits_slots[OF assms(3)]
  by (auto simp: Allocate_def slot_at_def Let_def)

lemma Deallocate_spec:
  "blocks (Deallocate a h) = (blocks h)(a := None) \<and>
   avail (Deallocate a h) = avail h + (case block_len h a of None \<Rightarrow> 0 | Some n \<Rightarrow> n) \<and>
   (\<forall>a1 j. slot_at (Deallocate a h) (a1, j) = (if a1 = a then None else slot_at h (a1, j)))"
  by (auto simp: Deallocate_def slot_at_def block_len_def split: option.splits)

subsection \<open>Emplace\<close>

lemma construct_from_spec:
  assumes "slot_at h p = Some s" and "arg_value h arg = Some x"
  shows "(construct_from T p arg h = (Inl ElementThrow, h) \<and> ctor_throws T x) \<or>
         construct_from T p arg h = (Inr (), set_slot p (Live x) h)"
proof (cases arg)
  case (CopyFrom q)
  with assms(2) have q: "slot_at h q = Some (Live x)"
    by (auto simp: arg_value_def split: option.splits slot.splits)
  show ?thesis using copy_construct_ok[OF q assms(1), of T] CopyFrom
    by (auto simp: construct_from_def ctor_throws_def)
next
  case (CopyOf y)
  then show ?thesis using assms
    by (auto simp: construct_from_def construct_at_def arg_value_def ctor_throws_def)
next
  case (MoveOf y)
  then show ?thesis using assms
    by (auto simp: construct_from_def construct_at_def arg_value_def ctor_throws_def)
qed

lemma construct_from_throws:
  assumes "slot_at h p = Some s" and "arg_value h arg = Some x"
  shows "new_element_throws T arg x = (construct_from T p arg h = (Inl ElementThrow, h))"
proof (cases arg)
  case (CopyFrom q)
  with assms(2) have q: "slot_at h q = Some (Live x)"
    by (auto simp: arg_value_def split: option.splits slot.splits)
  show ?thesis using copy_construct_ok[OF q assms(1), of T] CopyFrom
    by (auto simp: construct_from_def new_element_throws_def)
next
  case (CopyOf y)
  then show ?thesis using assms
    by (auto simp: construct_from_def construct_at_def arg_value_def new_element_throws_def)
next
  case (MoveOf y)
  then show ?thesis using assms
    by (auto simp: construct_from_def construct_at_def arg_value_def new_element_throws_def)
qed

lemma make_tmp_spec:
  assumes "arg_value h arg = Some x"
  shows "(make_tmp T arg h = Inl ElementThrow \<and> ctor_throws T x) \<or> make_tmp T arg h = Inr x"
  using assms
  by (cases arg)
     (auto simp: make_tmp_def arg_value_def deref_def ctor_throws_def split: option.splits slot.splits)

lemma arg_value_frame:
  assumes "arg_value h arg = Some x" and "\<And>q y. slot_at h q = Some (Live y) \<Longrightarrow> slot_at h1 q = Some (Live y)"
  shows "arg_value h1 arg = Some x"
  using assms by (cases arg) (auto simp: arg_value_def split: option.splits slot.splits)

lemma CopyOrMoveInNewData_spec:
  assumes "bs \<noteq> bd"
    and "\<forall>j<n. \<exists>x. slot_at h (bs, i + j) = Some (Live x)"
    and "\<forall>j<n. slot_at h (bd, k + j) = Some Uninit"
  shows "(\<exists>h1 y. CopyOrMoveInNewData T (bs, i) n (bd, k) h = (Inl ElementThrow, h1) \<and>
            ctor_throws T y \<and> (relocates_by_move T \<longrightarrow> move_ctor_throws T y) \<and>
            same_shape h h1 \<and>
            (\<forall>a j. a \<noteq> bs \<longrightarrow> slot_at h1 (a, j) = slot_at h (a, j)) \<and>
            (\<not> relocates_by_move T \<longrightarrow> h1 = h) \<and>
            (relocates_by_move T \<longrightarrow>
               (\<exists>t<n. move_throws_at T bs (i + t) h \<and> moves_ok T bs i t h \<and>
                  moved_range T bs i t h h1))) \<or>
         (\<exists>h1. CopyOrMoveInNewData T (bs, i) n (bd, k) h = (Inr (bd, k + n), h1) \<and>
            same_shape h h1 \<and>
            (\<forall>a j. a \<noteq> bs \<longrightarrow> slot_at h1 (a, j) =
               (if a = bd \<and> k \<le> j \<and> j < k + n then slot_at h (bs, i + (j - k))
                else slot_at h (a, j))) \<and>
            (\<forall>j. \<not> (i \<le> j \<and> j < i + n) \<longrightarrow> slot_at h1 (bs, j) = slot_at h (bs, j)) \<and>
            (\<forall>j. i \<le> j \<and> j < i + n \<longrightarrow> (\<exists>y. slot_at h1 (bs, j) = Some (Live y))) \<and>
            (\<not> relocates_by_move T \<longrightarrow> (\<forall>j. slot_at h1 (bs, j) = slot_at h (bs, j))) \<and>
            (relocates_by_move T \<longrightarrow> moves_ok T bs i n h \<and> moved_range T bs i n h h1))"
proof (cases "relocates_by_move T")
  case True
  then have e: "CopyOrMoveInNewData T (bs, i) n (bd, k) h = uninitialized_move_n T (bs, i) n (bd, k) h"
    by (simp add: CopyOrMoveInNewData_def relocates_by_move_def)
  have live: "\<exists>y. map_option (slot_map (moved_from T)) (slot_at h (bs, j)) = Some (Live y)"
    if "i \<le> j" "j < i + n" for j
  proof -
    from that have "j - i < n" "i + (j - i) = j" by arith+
    with assms(2) have "\<exists>x. slot_at h (bs, j) = Some (Live x)" by metis
    then show ?thesis by (auto simp: slot_map_def)
  qed
  from uninitialized_move_n_spec[OF assms, of T] show ?thesis
  proof
    assume "\<exists>h1 t x. uninitialized_move_n T (bs, i) n (bd, k) h = (Inl ElementThrow, h1) \<and>
            t < n \<and> slot_at h (bs, i + t) = Some (Live x) \<and> move_ctor_throws T x \<and>
            (\<forall>j<t. \<exists>y. slot_at h (bs, i + j) = Some (Live y) \<and> \<not> move_ctor_throws T y) \<and>
            same_shape h h1 \<and>
            (\<forall>a j. slot_at h1 (a, j) =
               (if a = bs \<and> i \<le> j \<and> j < i + t
                  then map_option (slot_map (moved_from T)) (slot_at h (a, j))
                else slot_at h (a, j)))"
    then obtain h1 t x where f:
      "uninitialized_move_n T (bs, i) n (bd, k) h = (Inl ElementThrow, h1)"
      "t < n" "slot_at h (bs, i + t) = Some (Live x)" "move_ctor_throws T x"
      "\<forall>j<t. \<exists>y. slot_at h (bs, i + j) = Some (Live y) \<and> \<not> move_ctor_throws T y"
      "same_shape h h1"
      "\<And>a j. slot_at h1 (a, j) =
               (if a = bs \<and> i \<le> j \<and> j < i + t
                  then map_option (slot_map (moved_from T)) (slot_at h (a, j))
                else slot_at h (a, j))"
      by blast
    have m: "\<exists>t<n. move_throws_at T bs (i + t) h \<and> moves_ok T bs i t h \<and> moved_range T bs i t h h1"
      using f(2,3,4,5) by (intro exI[of _ t]) (simp add: move_throws_at_def moves_ok_def moved_range_def f(7))
    have o: "\<forall>a j. a \<noteq> bs \<longrightarrow> slot_at h1 (a, j) = slot_at h (a, j)"
      by (simp add: f(7))
    have c: "ctor_throws T x" using f(4) by (simp add: ctor_throws_def)
    show ?thesis unfolding e using f(1,4,6) True m o c
      by (intro disjI1 exI[of _ h1] exI[of _ x]) blast
  next
    assume "\<exists>h1. uninitialized_move_n T (bs, i) n (bd, k) h = (Inr (bd, k + n), h1) \<and>
            (\<forall>j<n. \<exists>y. slot_at h (bs, i + j) = Some (Live y) \<and> \<not> move_ctor_throws T y) \<and>
            same_shape h h1 \<and>
            (\<forall>a j. slot_at h1 (a, j) =
               (if a = bd \<and> k \<le> j \<and> j < k + n then slot_at h (bs, i + (j - k))
                else if a = bs \<and> i \<le> j \<and> j < i + n
                  then map_option (slot_map (moved_from T)) (slot_at h (a, j))
                else slot_at h (a, j)))"
    then obtain h1 where h1: "uninitialized_move_n T (bs, i) n (bd, k) h = (Inr (bd, k + n), h1)"
      "\<forall>j<n. \<exists>y. slot_at h (bs, i + j) = Some (Live y) \<and> \<not> move_ctor_throws T y"
      "same_shape h h1"
      "\<And>a j. slot_at h1 (a, j) =
               (if a = bd \<and> k \<le> j \<and> j < k + n then slot_at h (bs, i + (j - k))
                else if a = bs \<and> i \<le> j \<and> j < i + n
                  then map_option (slot_map (moved_from T)) (slot_at h (a, j))
                else slot_at h (a, j))"
      by blast
    have "\<forall>a j. a \<noteq> bs \<longrightarrow> slot_at h1 (a, j) =
               (if a = bd \<and> k \<le> j \<and> j < k + n then slot_at h (bs, i + (j - k))
                else slot_at h (a, j))"
      by (simp add: h1(4))
    moreover have "\<forall>j. \<not> (i \<le> j \<and> j < i + n) \<longrightarrow> slot_at h1 (bs, j) = slot_at h (bs, j)"
      using assms(1) by (simp add: h1(4))
    moreover have "\<forall>j. i \<le> j \<and> j < i + n \<longrightarrow> (\<exists>y. slot_at h1 (bs, j) = Some (Live y))"
      using assms(1) live by (simp add: h1(4))
    moreover have "moves_ok T bs i n h" using h1(2) by (simp add: moves_ok_def)
    moreover have "moved_range T bs i n h h1"
      using assms(1) by (simp add: moved_range_def h1(4))
    ultimately show ?thesis using True h1(1,3) unfolding e
      by (intro disjI2 exI[of _ h1]) blast
  qed
next
  case False
  then have e: "CopyOrMoveInNewData T (bs, i) n (bd, k) h = uninitialized_copy_n T (bs, i) n (bd, k) h"
    by (simp add: CopyOrMoveInNewData_def relocates_by_move_def)
  have live: "\<exists>y. slot_at h (bs, j) = Some (Live y)" if "i \<le> j" "j < i + n" for j
  proof -
    from that have "j - i < n" "i + (j - i) = j" by arith+
    with assms(2) show ?thesis by metis
  qed
  from uninitialized_copy_n_spec[OF assms, of T] show ?thesis
  proof
    assume "uninitialized_copy_n T (bs, i) n (bd, k) h = (Inl ElementThrow, h) \<and>
            (\<exists>x. copy_ctor_throws T x)"
    then show ?thesis using False unfolding e by (auto simp: ctor_throws_def)
  next
    assume "\<exists>h1. uninitialized_copy_n T (bs, i) n (bd, k) h = (Inr (bd, k + n), h1) \<and>
            same_shape h h1 \<and>
            (\<forall>a j. slot_at h1 (a, j) =
               (if a = bd \<and> k \<le> j \<and> j < k + n then slot_at h (bs, i + (j - k))
                else slot_at h (a, j)))"
    then obtain h1 where h1: "uninitialized_copy_n T (bs, i) n (bd, k) h = (Inr (bd, k + n), h1)"
      "same_shape h h1"
      "\<And>a j. slot_at h1 (a, j) =
               (if a = bd \<and> k \<le> j \<and> j < k + n then slot_at h (bs, i + (j - k))
                else slot_at h (a, j))"
      by blast
    have "\<forall>j. slot_at h1 (bs, j) = slot_at h (bs, j)"
      using assms(1) by (simp add: h1(3))
    moreover have "\<forall>j. i \<le> j \<and> j < i + n \<longrightarrow> (\<exists>y. slot_at h1 (bs, j) = Some (Live y))"
      using assms(1) live by (simp add: h1(3))
    ultimately show ?thesis using False h1(1,2) unfolding e by (simp add: h1(3))
  qed
qed

lemma CopyData_spec:
  assumes ne: "b \<noteq> nb"
    and src: "\<forall>j<n. \<exists>x. slot_at h (b, i + j) = Some (Live x)"
    and dst: "\<forall>j<n. slot_at h (nb, k + j) = Some Uninit"
    and np: "slot_at h (nb, kp) = Some (Live x0)"
    and pre: "\<forall>j<i. \<exists>y. slot_at h (nb, j) = Some (Live y)"
    and ik: "i \<le> kp"
    and bg: "Vector_begin v = (b, 0)"
    and nd: "GetAddress new_data = (nb, 0)"
  shows "(\<exists>h1 y. CopyData T (b, i) n (nb, k) new_data (nb, kp) v h = (Inl ElementThrow, h1) \<and>
            ctor_throws T y \<and> (relocates_by_move T \<longrightarrow> move_ctor_throws T y) \<and>
            same_shape h h1 \<and>
            (\<forall>a j. a \<noteq> b \<and> a \<noteq> nb \<longrightarrow> slot_at h1 (a, j) = slot_at h (a, j)) \<and>
            (\<not> relocates_by_move T \<longrightarrow> (\<forall>j. slot_at h1 (b, j) = slot_at h (b, j))) \<and>
            (relocates_by_move T \<longrightarrow>
               (\<exists>t<n. move_throws_at T b (i + t) h \<and> moves_ok T b i t h \<and>
                  moved_range T b i t h h1))) \<or>
         (\<exists>h1. CopyData T (b, i) n (nb, k) new_data (nb, kp) v h = (Inr (), h1) \<and>
            same_shape h h1 \<and>
            (\<forall>a j. a \<noteq> b \<longrightarrow> slot_at h1 (a, j) =
               (if a = nb \<and> k \<le> j \<and> j < k + n then slot_at h (b, i + (j - k))
                else slot_at h (a, j))) \<and>
            (\<forall>j. \<not> (i \<le> j \<and> j < i + n) \<longrightarrow> slot_at h1 (b, j) = slot_at h (b, j)) \<and>
            (\<forall>j. i \<le> j \<and> j < i + n \<longrightarrow> (\<exists>y. slot_at h1 (b, j) = Some (Live y))) \<and>
            (\<not> relocates_by_move T \<longrightarrow> (\<forall>j. slot_at h1 (b, j) = slot_at h (b, j))) \<and>
            (relocates_by_move T \<longrightarrow> moves_ok T b i n h \<and> moved_range T b i n h h1))"
proof -
  from CopyOrMoveInNewData_spec[OF ne src dst, of T] show ?thesis
  proof
    assume "\<exists>h1 y. CopyOrMoveInNewData T (b, i) n (nb, k) h = (Inl ElementThrow, h1) \<and>
            ctor_throws T y \<and> (relocates_by_move T \<longrightarrow> move_ctor_throws T y) \<and>
            same_shape h h1 \<and>
            (\<forall>a j. a \<noteq> b \<longrightarrow> slot_at h1 (a, j) = slot_at h (a, j)) \<and>
            (\<not> relocates_by_move T \<longrightarrow> h1 = h) \<and>
            (relocates_by_move T \<longrightarrow>
               (\<exists>t<n. move_throws_at T b (i + t) h \<and> moves_ok T b i t h \<and>
                  moved_range T b i t h h1))"
    then obtain h1 y where f: "CopyOrMoveInNewData T (b, i) n (nb, k) h = (Inl ElementThrow, h1)"
      "ctor_throws T y" "relocates_by_move T \<longrightarrow> move_ctor_throws T y" "same_shape h h1"
      "\<And>a j. a \<noteq> b \<Longrightarrow> slot_at h1 (a, j) = slot_at h (a, j)"
      "\<not> relocates_by_move T \<longrightarrow> h1 = h"
      "relocates_by_move T \<longrightarrow>
         (\<exists>t<n. move_throws_at T b (i + t) h \<and> moves_ok T b i t h \<and> moved_range T b i t h h1)"
      by blast
    have l: "slot_at h1 (nb, kp) = Some (Live x0)" using np ne by (simp add: f(5))
    define h2 where "h2 = set_slot (nb, kp) Uninit h1"
    have d: "destroy_at (nb, kp) h1 = Inr h2" unfolding h2_def using l by (rule destroy_at_ok)
    have l2: "slot_at h2 (a, j) = (if a = nb \<and> j = kp then Some Uninit else slot_at h1 (a, j))"
      for a j
      by (simp add: h2_def slot_at_set_slot[OF l])
    have pd: "ptr_diff (b, i) (Vector_begin v) = Inr i" by (simp add: ptr_diff_def bg)
    have "\<forall>j<i. \<exists>y. slot_at h2 (nb, 0 + j) = Some (Live y)"
      using pre ik ne by (auto simp: l2 f(5))
    from destroy_n_spec[OF this] obtain h3 where h3: "destroy_n (nb, 0) i h2 = Inr h3"
      "same_shape h2 h3"
      "\<And>a j. slot_at h3 (a, j) =
          (if a = nb \<and> 0 \<le> j \<and> j < 0 + i then Some Uninit else slot_at h2 (a, j))"
      by blast
    have r: "CopyData T (b, i) n (nb, k) new_data (nb, kp) v h = (Inl ElementThrow, h3)"
      by (simp add: CopyData_def f(1) d pd nd h3(1))
    have "same_shape h h2"
      unfolding h2_def using same_shape_trans[OF f(4) same_shape_set_slot] .
    then have sh: "same_shape h h3" using h3(2) by (rule same_shape_trans)
    have o: "\<forall>a j. a \<noteq> b \<and> a \<noteq> nb \<longrightarrow> slot_at h3 (a, j) = slot_at h (a, j)"
      by (simp add: h3(3) l2 f(5))
    have c: "\<not> relocates_by_move T \<longrightarrow> (\<forall>j. slot_at h3 (b, j) = slot_at h (b, j))"
      using f(6) ne by (auto simp: h3(3) l2)
    have b3: "slot_at h3 (b, j) = slot_at h1 (b, j)" for j
      using ne by (simp add: h3(3) l2)
    have m: "relocates_by_move T \<longrightarrow>
         (\<exists>t<n. move_throws_at T b (i + t) h \<and> moves_ok T b i t h \<and> moved_range T b i t h h3)"
      using f(7) by (simp add: moved_range_def b3)
    show ?thesis using r f(2,3) sh o c m
      by (intro disjI1 exI[of _ h3] exI[of _ y]) blast
  next
    assume "\<exists>h1. CopyOrMoveInNewData T (b, i) n (nb, k) h = (Inr (nb, k + n), h1) \<and>
            same_shape h h1 \<and>
            (\<forall>a j. a \<noteq> b \<longrightarrow> slot_at h1 (a, j) =
               (if a = nb \<and> k \<le> j \<and> j < k + n then slot_at h (b, i + (j - k))
                else slot_at h (a, j))) \<and>
            (\<forall>j. \<not> (i \<le> j \<and> j < i + n) \<longrightarrow> slot_at h1 (b, j) = slot_at h (b, j)) \<and>
            (\<forall>j. i \<le> j \<and> j < i + n \<longrightarrow> (\<exists>y. slot_at h1 (b, j) = Some (Live y))) \<and>
            (\<not> relocates_by_move T \<longrightarrow> (\<forall>j. slot_at h1 (b, j) = slot_at h (b, j))) \<and>
            (relocates_by_move T \<longrightarrow> moves_ok T b i n h \<and> moved_range T b i n h h1)"
    then obtain h1 where H: "CopyOrMoveInNewData T (b, i) n (nb, k) h = (Inr (nb, k + n), h1) \<and>
            same_shape h h1 \<and>
            (\<forall>a j. a \<noteq> b \<longrightarrow> slot_at h1 (a, j) =
               (if a = nb \<and> k \<le> j \<and> j < k + n then slot_at h (b, i + (j - k))
                else slot_at h (a, j))) \<and>
            (\<forall>j. \<not> (i \<le> j \<and> j < i + n) \<longrightarrow> slot_at h1 (b, j) = slot_at h (b, j)) \<and>
            (\<forall>j. i \<le> j \<and> j < i + n \<longrightarrow> (\<exists>y. slot_at h1 (b, j) = Some (Live y))) \<and>
            (\<not> relocates_by_move T \<longrightarrow> (\<forall>j. slot_at h1 (b, j) = slot_at h (b, j))) \<and>
            (relocates_by_move T \<longrightarrow> moves_ok T b i n h \<and> moved_range T b i n h h1)" ..
    have "CopyData T (b, i) n (nb, k) new_data (nb, kp) v h = (Inr (), h1)"
      using H[THEN conjunct1] by (simp add: CopyData_def)
    then show ?thesis using H[THEN conjunct2]
      by (intro disjI2 exI[of _ h1] conjI) blast+
  qed
qed

lemma Emplace_at_end_spec:
  assumes hv: "holds v h xs" and room: "length xs < capacity_f (data_f v)"
    and av: "arg_value h arg = Some x"
  shows "(Emplace_at_end T (buffer_f (data_f v), length xs) arg v h = (Inl ElementThrow, v, h) \<and>
            ctor_throws T x) \<or>
         (\<exists>h1. Emplace_at_end T (buffer_f (data_f v), length xs) arg v h =
              (Inr (buffer_f (data_f v), length xs), v\<lparr>size_f := size_f v + 1\<rparr>, h1) \<and>
            holds (v\<lparr>size_f := size_f v + 1\<rparr>) h1 (xs @ [x]))"
proof -
  define b where "b = buffer_f (data_f v)"
  define c where "c = capacity_f (data_f v)"
  define n where "n = length xs"
  from hv have inv: "RawMemory_inv (data_f v)" and sz: "size_f v = n" and le: "n \<le> c"
    and sl: "\<And>j. slot_at h (b, j) =
        (if j < n then Some (Live (xs ! j)) else if j < c then Some Uninit else None)"
    by (simp_all add: holds_iff b_def c_def n_def)
  have nc: "n < c" using room by (simp add: n_def c_def)
  have u: "slot_at h (b, n) = Some Uninit" using nc by (simp add: sl)
  from construct_from_spec[OF u av, of T] show ?thesis
  proof
    assume "construct_from T (b, n) arg h = (Inl ElementThrow, h) \<and> ctor_throws T x"
    then show ?thesis
      unfolding b_def[symmetric] n_def[symmetric] by (simp add: Emplace_at_end_def)
  next
    assume s: "construct_from T (b, n) arg h = (Inr (), set_slot (b, n) (Live x) h)"
    have ln: "length (xs @ [x]) = Suc n" by (simp add: n_def)
    have nth: "(xs @ [x]) ! j = (if j < n then xs ! j else x)" if "j < Suc n" for j
      using that by (auto simp: nth_append n_def less_Suc_eq)
    have "holds (v\<lparr>size_f := Suc n\<rparr>) (set_slot (b, n) (Live x) h) (xs @ [x])"
      unfolding holds_iff ln using inv nc nth
      by (auto simp: slot_at_set_slot[OF u] sl b_def[symmetric] c_def[symmetric])
    then show ?thesis
      unfolding b_def[symmetric] n_def[symmetric] using s by (simp add: Emplace_at_end_def sz)
  qed
qed

lemma move_assign_from_tmp_ok:
  "slot_at h p = Some (Live y) \<Longrightarrow>
   move_assign_from_tmp T p x h =
     (if move_assign_throws T x then (Inl ElementThrow, h) else (Inr (), set_slot p (Live x) h))"
  by (simp add: move_assign_from_tmp_def assign_at_def)

lemma Emplace_shift_spec:
  assumes hv: "holds v h xs" and kn: "k < length xs" and room: "length xs < capacity_f (data_f v)"
    and av: "arg_value h arg = Some x"
  shows "(\<exists>h1 y. Emplace_shift T (buffer_f (data_f v), k) arg v h = (Inl ElementThrow, v, h1) \<and>
            (ctor_throws T y \<or> move_assign_throws T y)) \<or>
         (\<exists>h1. Emplace_shift T (buffer_f (data_f v), k) arg v h =
              (Inr (buffer_f (data_f v), k), v\<lparr>size_f := size_f v + 1\<rparr>, h1) \<and>
            holds (v\<lparr>size_f := size_f v + 1\<rparr>) h1 (take k xs @ x # drop k xs))"
proof -
  define b where "b = buffer_f (data_f v)"
  define c where "c = capacity_f (data_f v)"
  define n where "n = length xs"
  define l where "l = n - Suc 0"
  define m where "m = l - k"
  from hv have inv: "RawMemory_inv (data_f v)" and sz: "size_f v = n" and le: "n \<le> c"
    and sl: "\<And>j. slot_at h (b, j) =
        (if j < n then Some (Live (xs ! j)) else if j < c then Some Uninit else None)"
    by (simp_all add: holds_iff b_def c_def n_def)
  have nc: "n < c" using room by (simp add: n_def c_def)
  have k: "k < n" using kn by (simp add: n_def)
  have ar: "Suc l = n" "k \<le> l" "k + m = l" "n - m = Suc k" "\<not> n < m" "n \<noteq> 0"
    using k by (simp_all add: l_def m_def)
  have er: "Emplace_shift T (b, k) arg v h =
      (case make_tmp T arg h of
         Inl e \<Rightarrow> (Inl e, v, h)
       | Inr tmp \<Rightarrow>
           (case move_construct T (b, n) (b, l) h of
              (Inl e, h1) \<Rightarrow> (Inl e, v, h1)
            | (Inr _, h1) \<Rightarrow>
                (case move_backward_loop T (b, k) m (b, Suc k) h1 of
                   (Inl e, h2) \<Rightarrow> (Inl e, v, h2)
                 | (Inr _, h2) \<Rightarrow>
                     (case move_assign_from_tmp T (b, k) tmp h2 of
                        (Inl e, h3) \<Rightarrow> (Inl e, v, h3)
                      | (Inr _, h3) \<Rightarrow> (Inr (b, k), v\<lparr>size_f := Suc n\<rparr>, h3)))))"
    using ar
    by (simp add: Emplace_shift_def std_move_backward_def ptr_diff_def Vector_end_def
        RawMemory_plus_def Let_def sz b_def[symmetric] l_def[symmetric] m_def[symmetric]
        split: sum.splits prod.splits)
  from make_tmp_spec[OF av, of T] show ?thesis
  proof
    assume "make_tmp T arg h = Inl ElementThrow \<and> ctor_throws T x"
    then show ?thesis unfolding b_def[symmetric] by (auto simp: er)
  next
    assume tmp: "make_tmp T arg h = Inr x"
    have xl: "slot_at h (b, l) = Some (Live (xs ! l))" using ar by (simp add: sl)
    have un: "slot_at h (b, n) = Some Uninit" using nc by (simp add: sl)
    define hA where
      "hA = set_slot (b, l) (Live (moved_from T (xs ! l))) (set_slot (b, n) (Live (xs ! l)) h)"
    have mc: "move_construct T (b, n) (b, l) h =
        (if move_ctor_throws T (xs ! l) then (Inl ElementThrow, h) else (Inr (), hA))"
      unfolding hA_def using xl un by (rule move_construct_ok)
    have xl1: "slot_at (set_slot (b, n) (Live (xs ! l)) h) (b, l) = Some (Live (xs ! l))"
      using xl ar by (simp add: slot_at_set_slot[OF un])
    have sA: "slot_at hA (a, j) =
        (if a = b \<and> j = l then Some (Live (moved_from T (xs ! l)))
         else if a = b \<and> j = n then Some (Live (xs ! l)) else slot_at h (a, j))" for a j
      by (simp add: hA_def slot_at_set_slot[OF xl1] slot_at_set_slot[OF un])
    show ?thesis
    proof (cases "move_ctor_throws T (xs ! l)")
      case True
      then have "ctor_throws T (xs ! l)" by (simp add: ctor_throws_def)
      then show ?thesis unfolding b_def[symmetric] using True by (auto simp: er tmp mc)
    next
      case False
      have pre: "\<forall>j\<le>m. \<exists>y. slot_at hA (b, k + j) = Some (Live y)"
        using ar by (auto simp: sA sl)
      from move_backward_loop_spec[OF pre, of T] show ?thesis
      proof
        assume "\<exists>h1 y. move_backward_loop T (b, k) m (b, Suc k) hA = (Inl ElementThrow, h1) \<and>
            move_assign_throws T y"
        then show ?thesis unfolding b_def[symmetric] using False by (auto simp: er tmp mc)
      next
        assume "\<exists>h1. move_backward_loop T (b, k) m (b, Suc k) hA = (Inr (), h1) \<and>
            same_shape hA h1 \<and>
            (\<forall>a j. slot_at h1 (a, j) =
               (if a = b \<and> k < j \<and> j \<le> k + m then slot_at hA (b, j - 1)
                else if a = b \<and> j = k \<and> 0 < m
                  then map_option (slot_map (moved_from T)) (slot_at hA (b, k))
                else slot_at hA (a, j)))"
        then obtain hB where hB: "move_backward_loop T (b, k) m (b, Suc k) hA = (Inr (), hB)"
          and sB: "\<And>a j. slot_at hB (a, j) =
               (if a = b \<and> k < j \<and> j \<le> k + m then slot_at hA (b, j - 1)
                else if a = b \<and> j = k \<and> 0 < m
                  then map_option (slot_map (moved_from T)) (slot_at hA (b, k))
                else slot_at hA (a, j))"
          by blast
        have "\<exists>y. slot_at hB (b, k) = Some (Live y)"
          using ar k by (cases "0 < m") (auto simp: sB sA sl slot_map_def)
        then obtain y where y: "slot_at hB (b, k) = Some (Live y)" by blast
        define hC where "hC = set_slot (b, k) (Live x) hB"
        have ma: "move_assign_from_tmp T (b, k) x hB =
            (if move_assign_throws T x then (Inl ElementThrow, hB) else (Inr (), hC))"
          unfolding hC_def using y by (rule move_assign_from_tmp_ok)
        show ?thesis
        proof (cases "move_assign_throws T x")
          case True
          then show ?thesis unfolding b_def[symmetric] using False
            by (auto simp: er tmp mc hB ma)
        next
          case nt: False
          have sC: "slot_at hC (b, j) =
              (if j < k then Some (Live (xs ! j))
               else if j = k then Some (Live x)
               else if j < Suc n then Some (Live (xs ! (j - 1)))
               else if j < c then Some Uninit else None)" for j
          proof -
            consider "j < k" | "j = k" | "k < j" "j \<le> l" | "j = n" | "n < j"
              using ar by arith
            then show ?thesis
            proof cases
              case 1
              then show ?thesis using ar k by (simp add: hC_def slot_at_set_slot[OF y] sB sA sl)
            next
              case 2
              then show ?thesis by (simp add: hC_def slot_at_set_slot[OF y])
            next
              case 3
              then have "j - 1 < l" "j - 1 < n" "j < Suc n" using ar by arith+
              then show ?thesis using 3 ar
                by (simp add: hC_def slot_at_set_slot[OF y] sB sA sl)
            next
              case 4
              then have "j - 1 = l" using ar by arith
              then show ?thesis using 4 ar k nc
                by (simp add: hC_def slot_at_set_slot[OF y] sB sA sl)
            next
              case 5
              then show ?thesis using ar k nc
                by (simp add: hC_def slot_at_set_slot[OF y] sB sA sl)
            qed
          qed
          have ln: "length (take k xs @ x # drop k xs) = Suc n" using k by (simp add: n_def)
          have nth: "(take k xs @ x # drop k xs) ! j =
              (if j < k then xs ! j else if j = k then x else xs ! (j - 1))" if "j < Suc n" for j
            using that k by (auto simp: nth_append n_def nth_Cons')
          have "holds (v\<lparr>size_f := Suc n\<rparr>) hC (take k xs @ x # drop k xs)"
            unfolding holds_iff ln using inv nc nth k
            by (auto simp: sC b_def[symmetric] c_def[symmetric])
          then show ?thesis unfolding b_def[symmetric] using False nt
            by (auto simp: er tmp mc hB ma sz)
        qed
      qed
    qed
  qed
qed

lemma RawMemory_ctor_spec:
  assumes "0 < N" and "blocks h (Suc (next_addr h)) = None" and "request_fits T N"
  shows "(RawMemory_ctor T N h = (Inl BadAlloc, h) \<and> avail h < N) \<or>
         (\<exists>h1. RawMemory_ctor T N h = (Inr \<lparr>buffer_f = Suc (next_addr h), capacity_f = N\<rparr>, h1) \<and>
            N \<le> avail h \<and> avail h1 = avail h - N \<and>
            blocks h1 = (blocks h)(Suc (next_addr h) \<mapsto> replicate N Uninit) \<and>
            (\<forall>a j. slot_at h1 (a, j) =
               (if a = Suc (next_addr h) then (if j < N then Some Uninit else None)
                else slot_at h (a, j))))"
  using Allocate_spec[OF assms] by (auto simp: RawMemory_ctor_def)

lemma RawMemory_dtor_restores:
  assumes fresh: "blocks h nb = None" and nn: "nb \<noteq> nullptr"
    and al: "blocks h1 = (blocks h)(nb \<mapsto> replicate N Uninit)"
    and av: "avail h1 = avail h - N" "N \<le> avail h"
    and sh: "same_shape h1 hf"
    and sl: "\<And>a j. a \<noteq> nb \<Longrightarrow> slot_at hf (a, j) = slot_at h (a, j)"
  shows "blocks (RawMemory_dtor \<lparr>buffer_f = nb, capacity_f = N\<rparr> hf) = blocks h \<and>
         avail (RawMemory_dtor \<lparr>buffer_f = nb, capacity_f = N\<rparr> hf) = avail h"
proof -
  have d: "RawMemory_dtor \<lparr>buffer_f = nb, capacity_f = N\<rparr> hf = Deallocate nb hf"
    using nn by (simp add: RawMemory_dtor_def)
  have bl: "block_len hf a = block_len h1 a" for a
    using sh by (simp add: same_shape_def)
  have "blocks hf a = blocks h a" if "a \<noteq> nb" for a
  proof (rule blocks_eqI)
    show "block_len hf a = block_len h a"
      using that by (simp add: bl) (simp add: block_len_def al)
    show "slot_at hf (a, j) = slot_at h (a, j)" for j using that by (rule sl)
  qed
  then have "(blocks hf)(nb := None) = blocks h"
    using fresh by (auto simp: fun_eq_iff)
  moreover have "block_len hf nb = Some N" by (simp add: bl) (simp add: block_len_def al)
  moreover have "avail hf = avail h - N" using sh av by (simp add: same_shape_def)
  ultimately show ?thesis using av(2) Deallocate_spec[of nb hf] by (simp add: d)
qed

lemma RawMemory_dtor_releases:
  assumes fresh: "blocks h nb = None" and nn: "nb \<noteq> nullptr" and bnb: "b \<noteq> nb"
    and al: "blocks h1 = (blocks h)(nb \<mapsto> replicate N Uninit)"
    and av: "avail h1 = avail h - N" "N \<le> avail h"
    and sh: "same_shape h1 hf"
    and sl: "\<And>a j. a \<noteq> nb \<Longrightarrow> a \<noteq> b \<Longrightarrow> slot_at hf (a, j) = slot_at h (a, j)"
  shows "avail (RawMemory_dtor \<lparr>buffer_f = nb, capacity_f = N\<rparr> hf) = avail h \<and>
         (\<forall>a. a \<noteq> b \<longrightarrow> blocks (RawMemory_dtor \<lparr>buffer_f = nb, capacity_f = N\<rparr> hf) a = blocks h a) \<and>
         (\<forall>j. slot_at (RawMemory_dtor \<lparr>buffer_f = nb, capacity_f = N\<rparr> hf) (b, j) =
              slot_at hf (b, j))"
proof -
  have d: "RawMemory_dtor \<lparr>buffer_f = nb, capacity_f = N\<rparr> hf = Deallocate nb hf"
    using nn by (simp add: RawMemory_dtor_def)
  have bl: "block_len hf a = block_len h1 a" for a
    using sh by (simp add: same_shape_def)
  have o: "blocks hf a = blocks h a" if "a \<noteq> nb" "a \<noteq> b" for a
  proof (rule blocks_eqI)
    show "block_len hf a = block_len h a"
      using that by (simp add: bl) (simp add: block_len_def al)
    show "slot_at hf (a, j) = slot_at h (a, j)" for j using that by (rule sl)
  qed
  have "block_len hf nb = Some N" by (simp add: bl) (simp add: block_len_def al)
  moreover have "avail hf = avail h - N" using sh av by (simp add: same_shape_def)
  ultimately have a: "avail (Deallocate nb hf) = avail h"
    using av(2) Deallocate_spec[of nb hf] by simp
  have b: "\<forall>a. a \<noteq> b \<longrightarrow> blocks (Deallocate nb hf) a = blocks h a"
    using Deallocate_spec[of nb hf] fresh o by simp
  have c: "\<forall>j. slot_at (Deallocate nb hf) (b, j) = slot_at hf (b, j)"
    using Deallocate_spec[of nb hf] bnb by simp
  show ?thesis unfolding d using a b c by blast
qed

lemma holds_moved_prefix:
  assumes hv: "holds v h xs" and full: "length xs = capacity_f (data_f v)"
    and t: "t \<le> length xs"
    and sl: "\<And>j. slot_at hf (buffer_f (data_f v), j) =
        (if j < t then map_option (slot_map (moved_from T)) (slot_at h (buffer_f (data_f v), j))
         else slot_at h (buffer_f (data_f v), j))"
  shows "holds v hf (map (moved_from T) (take t xs) @ drop t xs)"
proof -
  let ?ys = "map (moved_from T) (take t xs) @ drop t xs"
  from hv full have inv: "RawMemory_inv (data_f v)" and sz: "size_f v = length xs"
    and s0: "\<And>j. slot_at h (buffer_f (data_f v), j) =
        (if j < length xs then Some (Live (xs ! j)) else None)"
    by (simp_all add: holds_iff)
  have ln: "length ?ys = length xs" using t by simp
  have nth: "?ys ! j = (if j < t then moved_from T (xs ! j) else xs ! j)" if "j < length xs" for j
    using that t by (auto simp: nth_append)
  have "slot_at hf (buffer_f (data_f v), j) =
        (if j < length ?ys then Some (Live (?ys ! j))
         else if j < capacity_f (data_f v) then Some Uninit else None)" for j
    unfolding ln using t full nth[of j] by (auto simp: sl s0 slot_map_def)
  then show ?thesis unfolding holds_iff ln using inv sz full by simp
qed

lemma RawMemory_Swap_new:
  "RawMemory_Swap (data_f v) \<lparr>buffer_f = nb, capacity_f = N\<rparr> =
     (\<lparr>buffer_f = nb, capacity_f = N\<rparr>, data_f v)"
  by (cases "data_f v") (simp add: RawMemory_Swap_def)

lemma Emplace_realloc_empty_spec:
  assumes hv: "holds v h []" and full: "capacity_f (data_f v) = 0"
    and av: "arg_value h arg = Some x"
    and fresh: "blocks h (Suc (next_addr h)) = None"
    and rf: "request_fits T 1"
  shows "(\<exists>e h1. Emplace_realloc T pos arg v h = (Inl e, v, h1) \<and>
            ((e = BadAlloc \<and> avail h < 1) \<or> (e = ElementThrow \<and> ctor_throws T x)) \<and>
            blocks h1 = blocks h \<and> avail h1 = avail h) \<or>
         (\<exists>h1. Emplace_realloc T pos arg v h =
              (Inr (Suc (next_addr h), 0),
               v\<lparr>data_f := \<lparr>buffer_f = Suc (next_addr h), capacity_f = 1\<rparr>, size_f := 1\<rparr>, h1) \<and>
            holds (v\<lparr>data_f := \<lparr>buffer_f = Suc (next_addr h), capacity_f = 1\<rparr>, size_f := 1\<rparr>)
              h1 [x])"
proof -
  define nb where "nb = Suc (next_addr h)"
  define N :: nat where "N = 1"
  from hv have inv: "RawMemory_inv (data_f v)" and sz: "size_f v = 0"
    by (simp_all add: holds_iff)
  have Nq: "(if size_f v = 0 then 1 else 2 * Capacity v) = N" by (simp add: sz N_def)
  have b0: "buffer_f (data_f v) = nullptr" using inv full by (simp add: RawMemory_inv_def)
  have nn: "nb \<noteq> nullptr" by (simp add: nb_def nullptr_def)
  have fr: "slot_at h (nb, j) = None" for j using fresh by (simp add: slot_at_def nb_def)
  have N0: "0 < N" by (simp add: N_def)
  have rfN: "request_fits T N" using rf by (simp add: N_def)
  from RawMemory_ctor_spec[OF N0 fresh rfN]
  have "(\<exists>e h1. Emplace_realloc T pos arg v h = (Inl e, v, h1) \<and>
            ((e = BadAlloc \<and> avail h < N) \<or> (e = ElementThrow \<and> ctor_throws T x)) \<and>
            blocks h1 = blocks h \<and> avail h1 = avail h) \<or>
         (\<exists>h1. Emplace_realloc T pos arg v h =
              (Inr (nb, 0), v\<lparr>data_f := \<lparr>buffer_f = nb, capacity_f = N\<rparr>, size_f := 1\<rparr>, h1) \<and>
            holds (v\<lparr>data_f := \<lparr>buffer_f = nb, capacity_f = N\<rparr>, size_f := 1\<rparr>) h1 [x])"
  proof
    assume f: "RawMemory_ctor T N h = (Inl BadAlloc, h) \<and> avail h < N"
    have "Emplace_realloc T pos arg v h = (Inl BadAlloc, v, h)"
      unfolding Emplace_realloc_def Nq by (simp add: f)
    then show ?thesis using f by simp
  next
    assume "\<exists>h1. RawMemory_ctor T N h = (Inr \<lparr>buffer_f = Suc (next_addr h), capacity_f = N\<rparr>, h1) \<and>
            N \<le> avail h \<and> avail h1 = avail h - N \<and>
            blocks h1 = (blocks h)(Suc (next_addr h) \<mapsto> replicate N Uninit) \<and>
            (\<forall>a j. slot_at h1 (a, j) =
               (if a = Suc (next_addr h) then (if j < N then Some Uninit else None)
                else slot_at h (a, j)))"
    then obtain h1 where rc: "RawMemory_ctor T N h = (Inr \<lparr>buffer_f = nb, capacity_f = N\<rparr>, h1)"
      and a1: "N \<le> avail h" "avail h1 = avail h - N"
      and bl: "blocks h1 = (blocks h)(nb \<mapsto> replicate N Uninit)"
      and s1: "\<And>a j. slot_at h1 (a, j) =
               (if a = nb then (if j < N then Some Uninit else None) else slot_at h (a, j))"
      unfolding nb_def by blast
    have er: "Emplace_realloc T pos arg v h =
        (case construct_from T (nb, 0) arg h1 of
           (Inl e, h2) \<Rightarrow> (Inl e, v, RawMemory_dtor \<lparr>buffer_f = nb, capacity_f = N\<rparr> h2)
         | (Inr _, h2) \<Rightarrow>
             (Inr (nb, 0), v\<lparr>data_f := \<lparr>buffer_f = nb, capacity_f = N\<rparr>, size_f := 1\<rparr>, h2))"
      unfolding Emplace_realloc_def Nq
      by (simp add: sz rc GetAddress_def RawMemory_Swap_new RawMemory_dtor_def b0 Let_def
          cong: prod.case_cong sum.case_cong)
    have u: "slot_at h1 (nb, 0) = Some Uninit" using N0 by (simp add: s1)
    have av1: "arg_value h1 arg = Some x"
    proof (rule arg_value_frame[OF av])
      fix q :: ptr and y assume q: "slot_at h q = Some (Live y)"
      then have "fst q \<noteq> nb" using fr[of "snd q"] by auto
      then show "slot_at h1 q = Some (Live y)" using q s1[of "fst q" "snd q"] by simp
    qed
    from construct_from_spec[OF u av1, of T] show ?thesis
    proof
      assume f: "construct_from T (nb, 0) arg h1 = (Inl ElementThrow, h1) \<and> ctor_throws T x"
      have "slot_at h1 (a, j) = slot_at h (a, j)" if "a \<noteq> nb" for a j
        using that by (simp add: s1)
      with fresh nn bl a1(2,1) same_shape_refl
      have "blocks (RawMemory_dtor \<lparr>buffer_f = nb, capacity_f = N\<rparr> h1) = blocks h \<and>
            avail (RawMemory_dtor \<lparr>buffer_f = nb, capacity_f = N\<rparr> h1) = avail h"
        unfolding nb_def[symmetric] by (rule RawMemory_dtor_restores)
      then show ?thesis using f by (auto simp: er)
    next
      assume s: "construct_from T (nb, 0) arg h1 = (Inr (), set_slot (nb, 0) (Live x) h1)"
      have "holds (v\<lparr>data_f := \<lparr>buffer_f = nb, capacity_f = N\<rparr>, size_f := 1\<rparr>)
              (set_slot (nb, 0) (Live x) h1) [x]"
        unfolding holds_iff using nn
        by (auto simp: RawMemory_inv_def slot_at_set_slot[OF u] s1 N_def)
      then show ?thesis using s by (auto simp: er)
    qed
  qed
  then show ?thesis unfolding nb_def N_def .
qed

lemma Emplace_realloc_full_spec:
  assumes hv: "holds v h xs" and full: "length xs = capacity_f (data_f v)" and ne: "xs \<noteq> []"
    and kn: "k \<le> length xs"
    and av: "arg_value h arg = Some x"
    and fresh: "blocks h (Suc (next_addr h)) = None"
    and rf: "request_fits T (2 * length xs)"
  shows "(\<exists>e h1. Emplace_realloc T (buffer_f (data_f v), k) arg v h = (Inl e, v, h1) \<and>
            ((e = BadAlloc \<and> avail h < 2 * length xs) \<or>
             (e = ElementThrow \<and> (\<exists>y. ctor_throws T y))) \<and>
            avail h1 = avail h \<and>
            (\<forall>a. a \<noteq> buffer_f (data_f v) \<longrightarrow> blocks h1 a = blocks h a) \<and>
            (blocks h1 = blocks h \<or>
             (relocates_by_move T \<and> e = ElementThrow \<and> \<not> new_element_throws T arg x \<and>
              (\<exists>t<length xs. move_ctor_throws T (xs ! t) \<and>
                 (\<forall>j<t. \<not> move_ctor_throws T (xs ! j)) \<and>
                 holds v h1 (map (moved_from T) (take t xs) @ drop t xs))))) \<or>
         (\<exists>h1. Emplace_realloc T (buffer_f (data_f v), k) arg v h =
              (Inr (Suc (next_addr h), k),
               v\<lparr>data_f := \<lparr>buffer_f = Suc (next_addr h), capacity_f = 2 * length xs\<rparr>,
                 size_f := Suc (length xs)\<rparr>, h1) \<and>
            holds (v\<lparr>data_f := \<lparr>buffer_f = Suc (next_addr h), capacity_f = 2 * length xs\<rparr>,
                     size_f := Suc (length xs)\<rparr>)
              h1 (take k xs @ x # drop k xs))"
proof -
  define b where "b = buffer_f (data_f v)"
  define n where "n = length xs"
  define nb where "nb = Suc (next_addr h)"
  define N where "N = 2 * n"
  define nd where "nd = \<lparr>buffer_f = nb, capacity_f = N\<rparr>"
  define m where "m = n - k"
  from hv full have inv: "RawMemory_inv (data_f v)" and sz: "size_f v = n"
    and sl: "\<And>j. slot_at h (b, j) = (if j < n then Some (Live (xs ! j)) else None)"
    by (simp_all add: holds_iff b_def n_def)
  have n0: "0 < n" using ne by (simp add: n_def)
  have k: "k \<le> n" using kn by (simp add: n_def)
  have ar: "k + m = n" "Suc k + m = Suc n" "Suc n \<le> N" "k < N" "0 < N" "n \<noteq> 0"
    using k n0 by (simp_all add: m_def N_def)
  have Nq: "(if size_f v = 0 then 1 else 2 * Capacity v) = N"
    using n0 full by (simp add: sz Capacity_def RawMemory_Capacity_def N_def n_def)
  have bn: "b \<noteq> nullptr" using inv full n0 by (simp add: RawMemory_inv_def b_def n_def)
  have nn: "nb \<noteq> nullptr" by (simp add: nb_def nullptr_def)
  have fr: "slot_at h (nb, j) = None" for j using fresh by (simp add: slot_at_def nb_def)
  have bnb: "b \<noteq> nb" using fr[of 0] sl[of 0] n0 by auto
  have bg: "Vector_begin v = (b, 0)" by (simp add: Vector_begin_def GetAddress_def b_def)
  have ga: "GetAddress nd = (nb, 0)" by (simp add: GetAddress_def nd_def)
  have fresh': "blocks h nb = None" using fresh by (simp add: nb_def)
  have ve: "Vector_end v = (b, n)" by (simp add: Vector_end_def RawMemory_plus_def b_def sz)
  have gb: "GetAddress (data_f v) = (b, 0)" by (simp add: GetAddress_def b_def)
  have pd1: "ptr_diff (b, k) (b, 0) = Inr k" by (simp add: ptr_diff_def)
  have pd2: "ptr_diff (b, n) (b, k) = Inr m" using k by (simp add: ptr_diff_def m_def)
  have rp: "RawMemory_plus nd k = (nb, k)" by (simp add: RawMemory_plus_def nd_def)
  have pa: "ptr_add (nb, k) (Suc 0) = (nb, Suc k)" by (simp add: ptr_add_def)
  have sw: "RawMemory_Swap (data_f v) nd = (nd, data_f v)"
    unfolding nd_def by (rule RawMemory_Swap_new)
  have dd: "RawMemory_dtor (data_f v) hh = Deallocate b hh" for hh :: "'a heap"
    using bn by (simp add: RawMemory_dtor_def b_def)
  have rfN: "request_fits T N" using rf by (simp add: N_def n_def)
  from RawMemory_ctor_spec[OF ar(5) fresh rfN]
  have "(\<exists>e h1. Emplace_realloc T (b, k) arg v h = (Inl e, v, h1) \<and>
            ((e = BadAlloc \<and> avail h < N) \<or> (e = ElementThrow \<and> (\<exists>y. ctor_throws T y))) \<and>
            avail h1 = avail h \<and>
            (\<forall>a. a \<noteq> b \<longrightarrow> blocks h1 a = blocks h a) \<and>
            (blocks h1 = blocks h \<or>
             (relocates_by_move T \<and> e = ElementThrow \<and> \<not> new_element_throws T arg x \<and>
              (\<exists>t<n. move_ctor_throws T (xs ! t) \<and>
                 (\<forall>j<t. \<not> move_ctor_throws T (xs ! j)) \<and>
                 holds v h1 (map (moved_from T) (take t xs) @ drop t xs))))) \<or>
         (\<exists>h1. Emplace_realloc T (b, k) arg v h =
              (Inr (nb, k), v\<lparr>data_f := nd, size_f := Suc n\<rparr>, h1) \<and>
            holds (v\<lparr>data_f := nd, size_f := Suc n\<rparr>) h1 (take k xs @ x # drop k xs))"
  proof
    assume f: "RawMemory_ctor T N h = (Inl BadAlloc, h) \<and> avail h < N"
    have "Emplace_realloc T (b, k) arg v h = (Inl BadAlloc, v, h)"
      unfolding Emplace_realloc_def Nq by (simp add: f)
    then show ?thesis using f
      by (intro disjI1 exI[of _ BadAlloc] exI[of _ h]) blast
  next
    assume "\<exists>h1. RawMemory_ctor T N h = (Inr \<lparr>buffer_f = Suc (next_addr h), capacity_f = N\<rparr>, h1) \<and>
            N \<le> avail h \<and> avail h1 = avail h - N \<and>
            blocks h1 = (blocks h)(Suc (next_addr h) \<mapsto> replicate N Uninit) \<and>
            (\<forall>a j. slot_at h1 (a, j) =
               (if a = Suc (next_addr h) then (if j < N then Some Uninit else None)
                else slot_at h (a, j)))"
    then obtain h1 where rc: "RawMemory_ctor T N h = (Inr nd, h1)"
      and a1: "N \<le> avail h" "avail h1 = avail h - N"
      and bl: "blocks h1 = (blocks h)(nb \<mapsto> replicate N Uninit)"
      and s1: "\<And>a j. slot_at h1 (a, j) =
               (if a = nb then (if j < N then Some Uninit else None) else slot_at h (a, j))"
      unfolding nb_def nd_def by blast
    have er: "Emplace_realloc T (b, k) arg v h =
        (case construct_from T (nb, k) arg h1 of
           (Inl e, h2) \<Rightarrow> (Inl e, v, RawMemory_dtor nd h2)
         | (Inr _, h2) \<Rightarrow>
        (case CopyData T (b, 0) k (nb, 0) nd (nb, k) v h2 of
           (Inl e, h3) \<Rightarrow> (Inl e, v, RawMemory_dtor nd h3)
         | (Inr _, h3) \<Rightarrow>
        (case CopyData T (b, k) m (nb, Suc k) nd (nb, k) v h3 of
           (Inl e, h4) \<Rightarrow> (Inl e, v, RawMemory_dtor nd h4)
         | (Inr _, h4) \<Rightarrow>
        (case destroy_n (b, 0) n h4 of
           Inl e \<Rightarrow> (Inl e, v, h4)
         | Inr h5 \<Rightarrow> (Inr (nb, k), v\<lparr>data_f := nd, size_f := Suc n\<rparr>, Deallocate b h5)))))"
      unfolding Emplace_realloc_def Nq
      by (simp add: sz rc ar(6) bg ve pd1 pd2 rp pa ga gb sw dd Let_def
          cong: prod.case_cong sum.case_cong)
    have restore: "blocks (RawMemory_dtor nd hf) = blocks h \<and> avail (RawMemory_dtor nd hf) = avail h"
      if "same_shape h1 hf" "\<And>a j. a \<noteq> nb \<Longrightarrow> slot_at hf (a, j) = slot_at h (a, j)" for hf
      unfolding nd_def using fresh' nn bl a1(2,1) that by (rule RawMemory_dtor_restores)
    have releases: "avail (RawMemory_dtor nd hf) = avail h \<and>
        (\<forall>a. a \<noteq> b \<longrightarrow> blocks (RawMemory_dtor nd hf) a = blocks h a) \<and>
        (\<forall>j. slot_at (RawMemory_dtor nd hf) (b, j) = slot_at hf (b, j))"
      if "same_shape h1 hf" "\<And>a j. a \<noteq> nb \<Longrightarrow> a \<noteq> b \<Longrightarrow> slot_at hf (a, j) = slot_at h (a, j)"
      for hf
      unfolding nd_def using fresh' nn bnb bl a1(2,1) that by (rule RawMemory_dtor_releases)
    have moved: "\<exists>t<n. move_ctor_throws T (xs ! t) \<and> (\<forall>j<t. \<not> move_ctor_throws T (xs ! j)) \<and>
        holds v hf (map (moved_from T) (take t xs) @ drop t xs)"
      if "t < n" "move_ctor_throws T (xs ! t)" "\<forall>j<t. \<not> move_ctor_throws T (xs ! j)"
        "\<And>j. slot_at hf (b, j) =
           (if j < t then map_option (slot_map (moved_from T)) (slot_at h (b, j))
            else slot_at h (b, j))"
      for t hf
    proof -
      have "t \<le> length xs" using that(1) by (simp add: n_def)
      from holds_moved_prefix[OF hv full this, of hf T] that(4)
      have "holds v hf (map (moved_from T) (take t xs) @ drop t xs)"
        by (simp add: b_def)
      then show ?thesis using that(1,2,3) by blast
    qed
    have u: "slot_at h1 (nb, k) = Some Uninit" using ar by (simp add: s1)
    have av1: "arg_value h1 arg = Some x"
    proof (rule arg_value_frame[OF av])
      fix q :: ptr and y assume q: "slot_at h q = Some (Live y)"
      then have "fst q \<noteq> nb" using fr[of "snd q"] by auto
      then show "slot_at h1 q = Some (Live y)" using q s1[of "fst q" "snd q"] by simp
    qed
    from construct_from_spec[OF u av1, of T] show ?thesis
    proof
      assume f: "construct_from T (nb, k) arg h1 = (Inl ElementThrow, h1) \<and> ctor_throws T x"
      have "blocks (RawMemory_dtor nd h1) = blocks h \<and> avail (RawMemory_dtor nd h1) = avail h"
        by (rule restore) (simp_all add: s1)
      moreover from this
      have "\<forall>a. a \<noteq> b \<longrightarrow> blocks (RawMemory_dtor nd h1) a = blocks h a" by simp
      moreover have "Emplace_realloc T (b, k) arg v h = (Inl ElementThrow, v, RawMemory_dtor nd h1)"
        using f by (simp add: er)
      ultimately show ?thesis using f
        by (intro disjI1 exI[of _ ElementThrow] exI[of _ "RawMemory_dtor nd h1"]) blast
    next
      assume c2r: "construct_from T (nb, k) arg h1 = (Inr (), set_slot (nb, k) (Live x) h1)"
      define h2 where "h2 = set_slot (nb, k) (Live x) h1"
      have c2: "construct_from T (nb, k) arg h1 = (Inr (), h2)" using c2r by (simp add: h2_def)
      have nt: "\<not> new_element_throws T arg x"
        using construct_from_throws[OF u av1, of T] c2 by simp
      have b2: "slot_at h2 (b, j) = slot_at h (b, j)" for j
        using bnb by (simp add: h2_def slot_at_set_slot[OF u] s1)
      have s2: "slot_at h2 (a, j) = (if a = nb \<and> j = k then Some (Live x) else slot_at h1 (a, j))"
        for a j by (simp add: h2_def slot_at_set_slot[OF u])
      have sh12: "same_shape h1 h2" by (simp add: h2_def)
      have src1: "\<forall>j<k. \<exists>y. slot_at h2 (b, 0 + j) = Some (Live y)"
        using k bnb by (simp add: s2 s1 sl)
      have dst1: "\<forall>j<k. slot_at h2 (nb, 0 + j) = Some Uninit"
        using ar by (simp add: s2 s1)
      have np1: "slot_at h2 (nb, k) = Some (Live x)" by (simp add: s2)
      have pre1: "\<forall>j<0::nat. \<exists>y. slot_at h2 (nb, j) = Some (Live y)" by simp
      from CopyData_spec[OF bnb src1 dst1 np1 pre1 _ bg ga, of T] show ?thesis
      proof
        assume "\<exists>h3 y. CopyData T (b, 0) k (nb, 0) nd (nb, k) v h2 = (Inl ElementThrow, h3) \<and>
            ctor_throws T y \<and> (relocates_by_move T \<longrightarrow> move_ctor_throws T y) \<and>
            same_shape h2 h3 \<and>
            (\<forall>a j. a \<noteq> b \<and> a \<noteq> nb \<longrightarrow> slot_at h3 (a, j) = slot_at h2 (a, j)) \<and>
            (\<not> relocates_by_move T \<longrightarrow> (\<forall>j. slot_at h3 (b, j) = slot_at h2 (b, j))) \<and>
            (relocates_by_move T \<longrightarrow>
               (\<exists>t<k. move_throws_at T b (0 + t) h2 \<and> moves_ok T b 0 t h2 \<and>
                  moved_range T b 0 t h2 h3))"
        then obtain h3 y where f: "CopyData T (b, 0) k (nb, 0) nd (nb, k) v h2 = (Inl ElementThrow, h3)"
          "ctor_throws T y" "relocates_by_move T \<longrightarrow> move_ctor_throws T y" "same_shape h2 h3"
          "\<And>a j. a \<noteq> b \<and> a \<noteq> nb \<Longrightarrow> slot_at h3 (a, j) = slot_at h2 (a, j)"
          "\<not> relocates_by_move T \<longrightarrow> (\<forall>j. slot_at h3 (b, j) = slot_at h2 (b, j))"
          "relocates_by_move T \<longrightarrow>
               (\<exists>t<k. move_throws_at T b (0 + t) h2 \<and> moves_ok T b 0 t h2 \<and>
                  moved_range T b 0 t h2 h3)"
          by blast
        have rl: "avail (RawMemory_dtor nd h3) = avail h \<and>
            (\<forall>a. a \<noteq> b \<longrightarrow> blocks (RawMemory_dtor nd h3) a = blocks h a) \<and>
            (\<forall>j. slot_at (RawMemory_dtor nd h3) (b, j) = slot_at h3 (b, j))"
        proof (rule releases)
          show "same_shape h1 h3" using sh12 f(4) by (rule same_shape_trans)
          show "slot_at h3 (a, j) = slot_at h (a, j)" if "a \<noteq> nb" "a \<noteq> b" for a j
            using that by (simp add: f(5) s2 s1)
        qed
        have "blocks (RawMemory_dtor nd h3) = blocks h \<or>
              (relocates_by_move T \<and> ElementThrow = ElementThrow \<and> \<not> new_element_throws T arg x \<and>
               (\<exists>t<n. move_ctor_throws T (xs ! t) \<and> (\<forall>j<t. \<not> move_ctor_throws T (xs ! j)) \<and>
                  holds v (RawMemory_dtor nd h3) (map (moved_from T) (take t xs) @ drop t xs)))"
        proof (cases "relocates_by_move T")
          case True
          with f(7) obtain t where t: "t < k" "move_throws_at T b (0 + t) h2" "moves_ok T b 0 t h2"
            "moved_range T b 0 t h2 h3"
            by blast
          have tn: "t < n" using t(1) k by simp
          have th: "move_ctor_throws T (xs ! t)"
            using t(2) tn by (simp add: move_throws_at_def b2 sl)
          have ok: "\<forall>j<t. \<not> move_ctor_throws T (xs ! j)"
          proof (intro allI impI)
            fix j assume j: "j < t"
            then have "\<exists>y. slot_at h2 (b, 0 + j) = Some (Live y) \<and> \<not> move_ctor_throws T y"
              using t(3) unfolding moves_ok_def by blast
            then show "\<not> move_ctor_throws T (xs ! j)" using j tn by (simp add: b2 sl)
          qed
          have "slot_at (RawMemory_dtor nd h3) (b, j) =
                 (if j < t then map_option (slot_map (moved_from T)) (slot_at h (b, j))
                  else slot_at h (b, j))" for j
            using rl t(4) by (simp add: moved_range_def b2)
          from moved[OF tn th ok this] show ?thesis using True nt by blast
        next
          case False
          have "blocks (RawMemory_dtor nd h3) = blocks h \<and> avail (RawMemory_dtor nd h3) = avail h"
          proof (rule restore)
            show "same_shape h1 h3" using sh12 f(4) by (rule same_shape_trans)
            fix a j assume a: "a \<noteq> nb"
            show "slot_at h3 (a, j) = slot_at h (a, j)"
            proof (cases "a = b")
              case True
              then show ?thesis using False f(6) bnb by (simp add: s2 s1)
            next
              case nb': False
              then show ?thesis using a by (simp add: f(5) s2 s1)
            qed
          qed
          then show ?thesis by simp
        qed
        moreover have "Emplace_realloc T (b, k) arg v h = (Inl ElementThrow, v, RawMemory_dtor nd h3)"
          by (simp add: er c2 f(1))
        ultimately show ?thesis using f(2) rl
          by (intro disjI1 exI[of _ ElementThrow] exI[of _ "RawMemory_dtor nd h3"]) blast
      next
        assume "\<exists>h3. CopyData T (b, 0) k (nb, 0) nd (nb, k) v h2 = (Inr (), h3) \<and>
            same_shape h2 h3 \<and>
            (\<forall>a j. a \<noteq> b \<longrightarrow> slot_at h3 (a, j) =
               (if a = nb \<and> 0 \<le> j \<and> j < 0 + k then slot_at h2 (b, 0 + (j - 0))
                else slot_at h2 (a, j))) \<and>
            (\<forall>j. \<not> (0 \<le> j \<and> j < 0 + k) \<longrightarrow> slot_at h3 (b, j) = slot_at h2 (b, j)) \<and>
            (\<forall>j. 0 \<le> j \<and> j < 0 + k \<longrightarrow> (\<exists>y. slot_at h3 (b, j) = Some (Live y))) \<and>
            (\<not> relocates_by_move T \<longrightarrow> (\<forall>j. slot_at h3 (b, j) = slot_at h2 (b, j))) \<and>
            (relocates_by_move T \<longrightarrow> moves_ok T b 0 k h2 \<and> moved_range T b 0 k h2 h3)"
        then obtain h3 where H3: "CopyData T (b, 0) k (nb, 0) nd (nb, k) v h2 = (Inr (), h3) \<and>
            same_shape h2 h3 \<and>
            (\<forall>a j. a \<noteq> b \<longrightarrow> slot_at h3 (a, j) =
               (if a = nb \<and> 0 \<le> j \<and> j < 0 + k then slot_at h2 (b, 0 + (j - 0))
                else slot_at h2 (a, j))) \<and>
            (\<forall>j. \<not> (0 \<le> j \<and> j < 0 + k) \<longrightarrow> slot_at h3 (b, j) = slot_at h2 (b, j)) \<and>
            (\<forall>j. 0 \<le> j \<and> j < 0 + k \<longrightarrow> (\<exists>y. slot_at h3 (b, j) = Some (Live y))) \<and>
            (\<not> relocates_by_move T \<longrightarrow> (\<forall>j. slot_at h3 (b, j) = slot_at h2 (b, j))) \<and>
            (relocates_by_move T \<longrightarrow> moves_ok T b 0 k h2 \<and> moved_range T b 0 k h2 h3)" ..
        note c3 = H3[THEN conjunct1]
        note sh23 = H3[THEN conjunct2, THEN conjunct1]
        note o3r = H3[THEN conjunct2, THEN conjunct2, THEN conjunct1, rule_format]
        note b3r = H3[THEN conjunct2, THEN conjunct2, THEN conjunct2, THEN conjunct1, rule_format]
        note l3r = H3[THEN conjunct2, THEN conjunct2, THEN conjunct2, THEN conjunct2,
                      THEN conjunct1, rule_format]
        note cp3 = H3[THEN conjunct2, THEN conjunct2, THEN conjunct2, THEN conjunct2, THEN conjunct2,
                      THEN conjunct1]
        note mv3 = H3[THEN conjunct2, THEN conjunct2, THEN conjunct2, THEN conjunct2, THEN conjunct2,
                      THEN conjunct2]
        have o3: "slot_at h3 (a, j) =
               (if a = nb \<and> j < k then slot_at h2 (b, j) else slot_at h2 (a, j))"
          if "a \<noteq> b" for a j
          using o3r[of a j] that by (cases "a = nb \<and> j < k") auto
        have b3: "slot_at h3 (b, j) = slot_at h2 (b, j)" if "k \<le> j" for j
          using b3r[of j] that by simp
        have l3: "\<exists>y. slot_at h3 (b, j) = Some (Live y)" if "j < k" for j
          using l3r[of j] that by simp
        have sh13: "same_shape h1 h3" using sh12 sh23 by (rule same_shape_trans)
        have n3: "slot_at h3 (nb, j) =
            (if j < k then Some (Live (xs ! j)) else if j = k then Some (Live x)
             else if j < N then Some Uninit else None)" for j
          using bnb k ar by (auto simp: o3 s2 s1 sl)
        have src2: "\<forall>j<m. \<exists>y. slot_at h3 (b, k + j) = Some (Live y)"
          using bnb ar by (auto simp: b3 s2 s1 sl)
        have dst2: "\<forall>j<m. slot_at h3 (nb, Suc k + j) = Some Uninit"
          using ar by (auto simp: n3)
        have np2: "slot_at h3 (nb, k) = Some (Live x)" by (simp add: n3)
        have pre2: "\<forall>j<k. \<exists>y. slot_at h3 (nb, j) = Some (Live y)" by (simp add: n3)
        from CopyData_spec[OF bnb src2 dst2 np2 pre2 _ bg ga, of T] show ?thesis
        proof
          assume "\<exists>h4 y. CopyData T (b, k) m (nb, Suc k) nd (nb, k) v h3 = (Inl ElementThrow, h4) \<and>
              ctor_throws T y \<and> (relocates_by_move T \<longrightarrow> move_ctor_throws T y) \<and>
              same_shape h3 h4 \<and>
              (\<forall>a j. a \<noteq> b \<and> a \<noteq> nb \<longrightarrow> slot_at h4 (a, j) = slot_at h3 (a, j)) \<and>
              (\<not> relocates_by_move T \<longrightarrow> (\<forall>j. slot_at h4 (b, j) = slot_at h3 (b, j))) \<and>
              (relocates_by_move T \<longrightarrow>
                 (\<exists>t<m. move_throws_at T b (k + t) h3 \<and> moves_ok T b k t h3 \<and>
                    moved_range T b k t h3 h4))"
          then obtain h4 y where f: "CopyData T (b, k) m (nb, Suc k) nd (nb, k) v h3 = (Inl ElementThrow, h4)"
            "ctor_throws T y" "relocates_by_move T \<longrightarrow> move_ctor_throws T y" "same_shape h3 h4"
            "\<And>a j. a \<noteq> b \<and> a \<noteq> nb \<Longrightarrow> slot_at h4 (a, j) = slot_at h3 (a, j)"
            "\<not> relocates_by_move T \<longrightarrow> (\<forall>j. slot_at h4 (b, j) = slot_at h3 (b, j))"
            "relocates_by_move T \<longrightarrow>
                 (\<exists>t<m. move_throws_at T b (k + t) h3 \<and> moves_ok T b k t h3 \<and>
                    moved_range T b k t h3 h4)"
            by blast
          have rl: "avail (RawMemory_dtor nd h4) = avail h \<and>
              (\<forall>a. a \<noteq> b \<longrightarrow> blocks (RawMemory_dtor nd h4) a = blocks h a) \<and>
              (\<forall>j. slot_at (RawMemory_dtor nd h4) (b, j) = slot_at h4 (b, j))"
          proof (rule releases)
            show "same_shape h1 h4" using sh13 f(4) by (rule same_shape_trans)
            show "slot_at h4 (a, j) = slot_at h (a, j)" if "a \<noteq> nb" "a \<noteq> b" for a j
              using that by (simp add: f(5) o3 s2 s1)
          qed
          have "blocks (RawMemory_dtor nd h4) = blocks h \<or>
                (relocates_by_move T \<and> ElementThrow = ElementThrow \<and> \<not> new_element_throws T arg x \<and>
                 (\<exists>t<n. move_ctor_throws T (xs ! t) \<and> (\<forall>j<t. \<not> move_ctor_throws T (xs ! j)) \<and>
                    holds v (RawMemory_dtor nd h4) (map (moved_from T) (take t xs) @ drop t xs)))"
          proof (cases "relocates_by_move T")
            case True
            with f(7) obtain t where t: "t < m" "move_throws_at T b (k + t) h3" "moves_ok T b k t h3"
              "moved_range T b k t h3 h4"
              by blast
            from True mv3 have m3: "moves_ok T b 0 k h2" "moved_range T b 0 k h2 h3" by blast+
            have tn: "k + t < n" using t(1) ar by simp
            have b3': "slot_at h3 (b, j) =
                (if j < k then map_option (slot_map (moved_from T)) (slot_at h (b, j))
                 else slot_at h (b, j))" for j
              using m3(2) by (simp add: moved_range_def b2)
            have th: "move_ctor_throws T (xs ! (k + t))"
              using t(2) tn by (simp add: move_throws_at_def b3' sl)
            have ok: "\<forall>j<k + t. \<not> move_ctor_throws T (xs ! j)"
            proof (intro allI impI)
              fix j assume j: "j < k + t"
              show "\<not> move_ctor_throws T (xs ! j)"
              proof (cases "j < k")
                case True
                then have "\<exists>y. slot_at h2 (b, 0 + j) = Some (Live y) \<and> \<not> move_ctor_throws T y"
                  using m3(1) unfolding moves_ok_def by blast
                then show ?thesis using True k by (simp add: b2 sl)
              next
                case False
                then have "j - k < t" "k + (j - k) = j" using j by arith+
                then have "\<exists>y. slot_at h3 (b, j) = Some (Live y) \<and> \<not> move_ctor_throws T y"
                  using t(3) unfolding moves_ok_def by metis
                then show ?thesis using False j tn by (simp add: b3' sl)
              qed
            qed
            have "slot_at (RawMemory_dtor nd h4) (b, j) =
                   (if j < k + t then map_option (slot_map (moved_from T)) (slot_at h (b, j))
                    else slot_at h (b, j))" for j
              using rl t(4) by (auto simp: moved_range_def b3')
            from moved[OF tn th ok this] show ?thesis using True nt by blast
          next
            case False
            have "blocks (RawMemory_dtor nd h4) = blocks h \<and> avail (RawMemory_dtor nd h4) = avail h"
            proof (rule restore)
              show "same_shape h1 h4" using sh13 f(4) by (rule same_shape_trans)
              fix a j assume a: "a \<noteq> nb"
              show "slot_at h4 (a, j) = slot_at h (a, j)"
              proof (cases "a = b")
                case True
                then show ?thesis using False f(6) cp3 bnb by (simp add: s2 s1)
              next
                case nb': False
                then show ?thesis using a by (simp add: f(5) o3 s2 s1)
              qed
            qed
            then show ?thesis by simp
          qed
          moreover have "Emplace_realloc T (b, k) arg v h = (Inl ElementThrow, v, RawMemory_dtor nd h4)"
            by (simp add: er c2 c3 f(1))
          ultimately show ?thesis using f(2) rl
            by (intro disjI1 exI[of _ ElementThrow] exI[of _ "RawMemory_dtor nd h4"]) blast
        next
          assume "\<exists>h4. CopyData T (b, k) m (nb, Suc k) nd (nb, k) v h3 = (Inr (), h4) \<and>
              same_shape h3 h4 \<and>
              (\<forall>a j. a \<noteq> b \<longrightarrow> slot_at h4 (a, j) =
                 (if a = nb \<and> Suc k \<le> j \<and> j < Suc k + m then slot_at h3 (b, k + (j - Suc k))
                  else slot_at h3 (a, j))) \<and>
              (\<forall>j. \<not> (k \<le> j \<and> j < k + m) \<longrightarrow> slot_at h4 (b, j) = slot_at h3 (b, j)) \<and>
              (\<forall>j. k \<le> j \<and> j < k + m \<longrightarrow> (\<exists>y. slot_at h4 (b, j) = Some (Live y))) \<and>
              (\<not> relocates_by_move T \<longrightarrow> (\<forall>j. slot_at h4 (b, j) = slot_at h3 (b, j))) \<and>
              (relocates_by_move T \<longrightarrow> moves_ok T b k m h3 \<and> moved_range T b k m h3 h4)"
          then obtain h4 where H4: "CopyData T (b, k) m (nb, Suc k) nd (nb, k) v h3 = (Inr (), h4) \<and>
              same_shape h3 h4 \<and>
              (\<forall>a j. a \<noteq> b \<longrightarrow> slot_at h4 (a, j) =
                 (if a = nb \<and> Suc k \<le> j \<and> j < Suc k + m then slot_at h3 (b, k + (j - Suc k))
                  else slot_at h3 (a, j))) \<and>
              (\<forall>j. \<not> (k \<le> j \<and> j < k + m) \<longrightarrow> slot_at h4 (b, j) = slot_at h3 (b, j)) \<and>
              (\<forall>j. k \<le> j \<and> j < k + m \<longrightarrow> (\<exists>y. slot_at h4 (b, j) = Some (Live y))) \<and>
              (\<not> relocates_by_move T \<longrightarrow> (\<forall>j. slot_at h4 (b, j) = slot_at h3 (b, j))) \<and>
              (relocates_by_move T \<longrightarrow> moves_ok T b k m h3 \<and> moved_range T b k m h3 h4)" ..
          note c4 = H4[THEN conjunct1]
          note o4 = H4[THEN conjunct2, THEN conjunct2, THEN conjunct1, rule_format]
          note b4 = H4[THEN conjunct2, THEN conjunct2, THEN conjunct2, THEN conjunct1, rule_format]
          note l4 = H4[THEN conjunct2, THEN conjunct2, THEN conjunct2, THEN conjunct2,
                       THEN conjunct1, rule_format]
          have live4: "\<forall>j<n. \<exists>y. slot_at h4 (b, 0 + j) = Some (Live y)"
          proof (intro allI impI)
            fix j assume j: "j < n"
            show "\<exists>y. slot_at h4 (b, 0 + j) = Some (Live y)"
            proof (cases "k \<le> j")
              case True
              then show ?thesis using l4[of j] j ar by simp
            next
              case False
              then show ?thesis using b4[of j] l3[of j] by simp
            qed
          qed
          from destroy_n_spec[OF live4] obtain h5 where d5: "destroy_n (b, 0) n h4 = Inr h5"
            and s5: "\<And>a j. slot_at h5 (a, j) =
                (if a = b \<and> 0 \<le> j \<and> j < 0 + n then Some Uninit else slot_at h4 (a, j))"
            by blast
          define h6 where "h6 = Deallocate b h5"
          have s6: "slot_at h6 (a, j) = (if a = b then None else slot_at h5 (a, j))" for a j
            using Deallocate_spec[of b h5] by (simp add: h6_def)
          have n6: "slot_at h6 (nb, j) =
              (if j < k then Some (Live (xs ! j)) else if j = k then Some (Live x)
               else if j < Suc n then Some (Live (xs ! (j - 1)))
               else if j < N then Some Uninit else None)" for j
          proof -
            have e: "slot_at h6 (nb, j) = slot_at h4 (nb, j)" using bnb by (simp add: s6 s5)
            show ?thesis
            proof (cases "Suc k \<le> j \<and> j < Suc n")
              case True
              then have "k + (j - Suc k) = j - 1" "k \<le> j - 1" "j - 1 < n" by arith+
              then show ?thesis using True bnb ar
                by (simp add: e o4 b3 s2 s1 sl)
            next
              case False
              then show ?thesis using bnb ar by (auto simp: e o4 n3)
            qed
          qed
          have ln: "length (take k xs @ x # drop k xs) = Suc n" using k by (simp add: n_def)
          have nth: "(take k xs @ x # drop k xs) ! j =
              (if j < k then xs ! j else if j = k then x else xs ! (j - 1))" if "j < Suc n" for j
            using that k by (auto simp: nth_append n_def nth_Cons')
          have "holds (v\<lparr>data_f := nd, size_f := Suc n\<rparr>) h6 (take k xs @ x # drop k xs)"
            unfolding holds_iff ln using nn ar nth k
            by (auto simp: n6 nd_def RawMemory_inv_def)
          moreover have "Emplace_realloc T (b, k) arg v h =
              (Inr (nb, k), v\<lparr>data_f := nd, size_f := Suc n\<rparr>, h6)"
            by (simp add: er c2 c3 c4 d5 h6_def)
          ultimately show ?thesis
            by (intro disjI2 exI[of _ h6]) blast
        qed simp
      qed simp
    qed
  qed
  then show ?thesis unfolding b_def nb_def N_def nd_def n_def .
qed

lemma holds_blocks_cong: "blocks h1 = blocks h \<Longrightarrow> holds v h1 xs = holds v h xs"
  by (simp add: holds_def Vector_inv_def storage_def block_of_def)

lemma Emplace_spec:
  assumes hv: "holds v h xs" and kn: "k \<le> length xs"
    and av: "arg_value h arg = Some x"
    and fresh: "blocks h (Suc (next_addr h)) = None"
    and rf: "size_f v = Capacity v \<Longrightarrow>
               request_fits T (if size_f v = 0 then 1 else 2 * Capacity v)"
  shows "(\<exists>e h1. Emplace T (buffer_f (data_f v), k) arg v h = (Inl e, v, h1) \<and>
            ((e = BadAlloc \<and> size_f v = Capacity v \<and>
              avail h < (if size_f v = 0 then 1 else 2 * Capacity v)) \<or>
             (e = ElementThrow \<and> (\<exists>y. ctor_throws T y \<or> move_assign_throws T y))) \<and>
            (size_f v = Capacity v \<longrightarrow>
               avail h1 = avail h \<and>
               (\<forall>a. a \<noteq> buffer_f (data_f v) \<longrightarrow> blocks h1 a = blocks h a) \<and>
               (blocks h1 = blocks h \<or>
                (relocates_by_move T \<and> e = ElementThrow \<and> \<not> new_element_throws T arg x \<and>
                 (\<exists>t<length xs. move_ctor_throws T (xs ! t) \<and>
                    (\<forall>j<t. \<not> move_ctor_throws T (xs ! j)) \<and>
                    holds v h1 (map (moved_from T) (take t xs) @ drop t xs)))))) \<or>
         (\<exists>v1 h1. Emplace T (buffer_f (data_f v), k) arg v h =
              (Inr (buffer_f (data_f v1), k), v1, h1) \<and>
            size_f v1 = Suc (size_f v) \<and>
            holds v1 h1 (take k xs @ x # drop k xs))"
proof -
  from hv have sz: "size_f v = length xs" and le: "length xs \<le> capacity_f (data_f v)"
    by (simp_all add: holds_iff)
  have cap: "Capacity v = capacity_f (data_f v)" by (simp add: Capacity_def RawMemory_Capacity_def)
  have ve: "Vector_end v = (buffer_f (data_f v), length xs)"
    by (simp add: Vector_end_def RawMemory_plus_def sz)
  show ?thesis
  proof (cases "size_f v = Capacity v")
    case True
    then have full: "length xs = capacity_f (data_f v)" by (simp add: sz cap)
    have e: "Emplace T (buffer_f (data_f v), k) arg v h =
        Emplace_realloc T (buffer_f (data_f v), k) arg v h"
      using True by (simp add: Emplace_def)
    show ?thesis
    proof (cases "xs = []")
      case Nil: True
      have c0: "capacity_f (data_f v) = 0" using full Nil by simp
      have k0: "k = 0" using kn Nil by simp
      have rf1: "request_fits T 1" using rf[OF True] sz Nil by simp
      from Emplace_realloc_empty_spec[OF hv[unfolded Nil] c0 av fresh rf1, of "(buffer_f (data_f v), k)"]
      show ?thesis
      proof
        assume "\<exists>e h1. Emplace_realloc T (buffer_f (data_f v), k) arg v h = (Inl e, v, h1) \<and>
            ((e = BadAlloc \<and> avail h < 1) \<or> (e = ElementThrow \<and> ctor_throws T x)) \<and>
            blocks h1 = blocks h \<and> avail h1 = avail h"
        then obtain e h1 where f: "Emplace_realloc T (buffer_f (data_f v), k) arg v h = (Inl e, v, h1)"
          "(e = BadAlloc \<and> avail h < 1) \<or> (e = ElementThrow \<and> ctor_throws T x)"
          "blocks h1 = blocks h" "avail h1 = avail h"
          by blast
        have "(e = BadAlloc \<and> size_f v = Capacity v \<and>
              avail h < (if size_f v = 0 then 1 else 2 * Capacity v)) \<or>
             (e = ElementThrow \<and> (\<exists>y. ctor_throws T y \<or> move_assign_throws T y))"
          using f(2) True sz Nil by auto
        moreover have "\<forall>a. a \<noteq> buffer_f (data_f v) \<longrightarrow> blocks h1 a = blocks h a"
          using f(3) by simp
        ultimately show ?thesis using f(1,3,4) unfolding e
          by (intro disjI1 exI[of _ e] exI[of _ h1]) blast
      next
        assume "\<exists>h1. Emplace_realloc T (buffer_f (data_f v), k) arg v h =
              (Inr (Suc (next_addr h), 0),
               v\<lparr>data_f := \<lparr>buffer_f = Suc (next_addr h), capacity_f = 1\<rparr>, size_f := 1\<rparr>, h1) \<and>
            holds (v\<lparr>data_f := \<lparr>buffer_f = Suc (next_addr h), capacity_f = 1\<rparr>, size_f := 1\<rparr>)
              h1 [x]"
        then obtain h1 where s: "Emplace_realloc T (buffer_f (data_f v), k) arg v h =
              (Inr (Suc (next_addr h), 0),
               v\<lparr>data_f := \<lparr>buffer_f = Suc (next_addr h), capacity_f = 1\<rparr>, size_f := 1\<rparr>, h1)"
          "holds (v\<lparr>data_f := \<lparr>buffer_f = Suc (next_addr h), capacity_f = 1\<rparr>, size_f := 1\<rparr>)
              h1 [x]"
          by blast
        show ?thesis unfolding e
          apply (rule disjI2)
          apply (rule exI[of _ "v\<lparr>data_f := \<lparr>buffer_f = Suc (next_addr h), capacity_f = 1\<rparr>, size_f := 1\<rparr>"])
          apply (rule exI[of _ h1])
          using s sz Nil k0 apply simp
          done
      qed
    next
      case False
      have "length xs \<noteq> 0" using False by simp
      then have "capacity_f (data_f v) \<noteq> 0" unfolding full .
      then have rf2: "request_fits T (2 * length xs)" using rf[OF True] sz full cap by simp
      from Emplace_realloc_full_spec[OF hv full False kn av fresh rf2]
      show ?thesis
      proof
        assume "\<exists>e h1. Emplace_realloc T (buffer_f (data_f v), k) arg v h = (Inl e, v, h1) \<and>
            ((e = BadAlloc \<and> avail h < 2 * length xs) \<or>
             (e = ElementThrow \<and> (\<exists>y. ctor_throws T y))) \<and>
            avail h1 = avail h \<and>
            (\<forall>a. a \<noteq> buffer_f (data_f v) \<longrightarrow> blocks h1 a = blocks h a) \<and>
            (blocks h1 = blocks h \<or>
             (relocates_by_move T \<and> e = ElementThrow \<and> \<not> new_element_throws T arg x \<and>
              (\<exists>t<length xs. move_ctor_throws T (xs ! t) \<and>
                 (\<forall>j<t. \<not> move_ctor_throws T (xs ! j)) \<and>
                 holds v h1 (map (moved_from T) (take t xs) @ drop t xs))))"
        then obtain e h1 where f: "Emplace_realloc T (buffer_f (data_f v), k) arg v h = (Inl e, v, h1)"
          "(e = BadAlloc \<and> avail h < 2 * length xs) \<or> (e = ElementThrow \<and> (\<exists>y. ctor_throws T y))"
          "avail h1 = avail h \<and>
            (\<forall>a. a \<noteq> buffer_f (data_f v) \<longrightarrow> blocks h1 a = blocks h a) \<and>
            (blocks h1 = blocks h \<or>
             (relocates_by_move T \<and> e = ElementThrow \<and> \<not> new_element_throws T arg x \<and>
              (\<exists>t<length xs. move_ctor_throws T (xs ! t) \<and>
                 (\<forall>j<t. \<not> move_ctor_throws T (xs ! j)) \<and>
                 holds v h1 (map (moved_from T) (take t xs) @ drop t xs))))"
          by blast
        have "(e = BadAlloc \<and> size_f v = Capacity v \<and>
              avail h < (if size_f v = 0 then 1 else 2 * Capacity v)) \<or>
             (e = ElementThrow \<and> (\<exists>y. ctor_throws T y \<or> move_assign_throws T y))"
          using f(2) True sz False full cap by auto
        then show ?thesis using f(1,3) unfolding e
          by (intro disjI1 exI[of _ e] exI[of _ h1]) blast
      next
        assume "\<exists>h1. Emplace_realloc T (buffer_f (data_f v), k) arg v h =
              (Inr (Suc (next_addr h), k),
               v\<lparr>data_f := \<lparr>buffer_f = Suc (next_addr h), capacity_f = 2 * length xs\<rparr>,
                 size_f := Suc (length xs)\<rparr>, h1) \<and>
            holds (v\<lparr>data_f := \<lparr>buffer_f = Suc (next_addr h), capacity_f = 2 * length xs\<rparr>,
                     size_f := Suc (length xs)\<rparr>)
              h1 (take k xs @ x # drop k xs)"
        then obtain h1 where s: "Emplace_realloc T (buffer_f (data_f v), k) arg v h =
              (Inr (Suc (next_addr h), k),
               v\<lparr>data_f := \<lparr>buffer_f = Suc (next_addr h), capacity_f = 2 * length xs\<rparr>,
                 size_f := Suc (length xs)\<rparr>, h1)"
          "holds (v\<lparr>data_f := \<lparr>buffer_f = Suc (next_addr h), capacity_f = 2 * length xs\<rparr>,
                     size_f := Suc (length xs)\<rparr>)
              h1 (take k xs @ x # drop k xs)"
          by blast
        show ?thesis unfolding e
          apply (rule disjI2)
          apply (rule exI[of _ "v\<lparr>data_f := \<lparr>buffer_f = Suc (next_addr h), capacity_f = 2 * length xs\<rparr>,
                 size_f := Suc (length xs)\<rparr>"])
          apply (rule exI[of _ h1])
          using s sz apply simp
          done
      qed
    qed
  next
    case False
    then have room: "length xs < capacity_f (data_f v)" using le by (simp add: sz cap)
    show ?thesis
    proof (cases "k = length xs")
      case True
      have e: "Emplace T (buffer_f (data_f v), k) arg v h =
          Emplace_at_end T (buffer_f (data_f v), length xs) arg v h"
        using False True by (simp add: Emplace_def ve)
      from Emplace_at_end_spec[OF hv room av, of T] show ?thesis
      proof
        assume f: "Emplace_at_end T (buffer_f (data_f v), length xs) arg v h = (Inl ElementThrow, v, h) \<and>
            ctor_throws T x"
        show ?thesis unfolding e using f False
          by (intro disjI1 exI[of _ ElementThrow] exI[of _ h]) blast
      next
        assume "\<exists>h1. Emplace_at_end T (buffer_f (data_f v), length xs) arg v h =
              (Inr (buffer_f (data_f v), length xs), v\<lparr>size_f := size_f v + 1\<rparr>, h1) \<and>
            holds (v\<lparr>size_f := size_f v + 1\<rparr>) h1 (xs @ [x])"
        then obtain h1 where s: "Emplace_at_end T (buffer_f (data_f v), length xs) arg v h =
              (Inr (buffer_f (data_f v), length xs), v\<lparr>size_f := size_f v + 1\<rparr>, h1)"
            "holds (v\<lparr>size_f := size_f v + 1\<rparr>) h1 (xs @ [x])"
          by blast
        show ?thesis unfolding e
          apply (rule disjI2)
          apply (rule exI[of _ "v\<lparr>size_f := size_f v + 1\<rparr>"])
          apply (rule exI[of _ h1])
          using s True apply simp
          done
      qed
    next
      case nk: False
      then have k: "k < length xs" using kn by simp
      have e: "Emplace T (buffer_f (data_f v), k) arg v h =
          Emplace_shift T (buffer_f (data_f v), k) arg v h"
        using False nk by (simp add: Emplace_def ve)
      from Emplace_shift_spec[OF hv k room av, of T] show ?thesis
      proof
        assume "\<exists>h1 y. Emplace_shift T (buffer_f (data_f v), k) arg v h = (Inl ElementThrow, v, h1) \<and>
            (ctor_throws T y \<or> move_assign_throws T y)"
        then obtain h1 y where f: "Emplace_shift T (buffer_f (data_f v), k) arg v h = (Inl ElementThrow, v, h1)"
          "ctor_throws T y \<or> move_assign_throws T y"
          by blast
        show ?thesis unfolding e using f False
          by (intro disjI1 exI[of _ ElementThrow] exI[of _ h1]) blast
      next
        assume "\<exists>h1. Emplace_shift T (buffer_f (data_f v), k) arg v h =
              (Inr (buffer_f (data_f v), k), v\<lparr>size_f := size_f v + 1\<rparr>, h1) \<and>
            holds (v\<lparr>size_f := size_f v + 1\<rparr>) h1 (take k xs @ x # drop k xs)"
        then obtain h1 where s: "Emplace_shift T (buffer_f (data_f v), k) arg v h =
              (Inr (buffer_f (data_f v), k), v\<lparr>size_f := size_f v + 1\<rparr>, h1)"
            "holds (v\<lparr>size_f := size_f v + 1\<rparr>) h1 (take k xs @ x # drop k xs)"
          by blast
        show ?thesis unfolding e
          apply (rule disjI2)
          apply (rule exI[of _ "v\<lparr>size_f := size_f v + 1\<rparr>"])
          apply (rule exI[of _ h1])
          using s apply simp
          done
      qed
    qed
  qed
qed




text \<open>
  C3, as amended. Let the vector be full and hold \<open>xs\<close>. When \<^verbatim>\<open>Emplace\<close>,
  \<^verbatim>\<open>EmplaceBack\<close> or \<^verbatim>\<open>PushBack\<close> fails, it fails with an exception, the vector object
  (buffer, size and capacity) is unchanged, the allocator has as much room as before
  and every block other than the storage of the vector is as before, so the new block
  has been released. The storage is as before too, and the vector holds \<open>xs\<close>, whatever
  \<^verbatim>\<open>T\<close> is, when the allocation fails, when the constructor of the new element throws,
  and when the relocation is by copy. The one case left is that the relocation is by
  move, the new element has been constructed and the move constructor throws for an
  element of the vector: then the elements before the first such element are left in
  their moved-from state and the others are unchanged. As for C7, the storage of the
  vector is an array object of at most \<^verbatim>\<open>PTRDIFF_MAX\<close> bytes (\<open>storage_is_object\<close>).
\<close>

theorem Emplace_growth_keeps_state_on_throw:
  assumes "holds v h xs" and "Size v = Capacity v" and "k \<le> length xs"
    and "arg_value h arg = Some x" and "blocks h (Suc (next_addr h)) = None"
    and "storage_is_object T v"
  shows "\<forall>e v1 h1.
           Emplace T (ptr_add (Vector_begin v) k) arg v h = (Inl e, v1, h1) \<or>
           EmplaceBack T arg v h = (Inl e, v1, h1) \<or>
           PushBack T arg v h = (Inl e, v1, h1) \<longrightarrow>
           e \<noteq> UndefinedBehaviour \<and> v1 = v \<and> avail h1 = avail h \<and>
           (\<forall>a. a \<noteq> buffer_f (data_f v) \<longrightarrow> blocks h1 a = blocks h a) \<and>
           ((blocks h1 = blocks h \<and> holds v1 h1 xs) \<or>
            (relocates_by_move T \<and> e = ElementThrow \<and> \<not> new_element_throws T arg x \<and>
             (\<exists>t<length xs. move_ctor_throws T (xs ! t) \<and>
                (\<forall>j<t. \<not> move_ctor_throws T (xs ! j)) \<and>
                holds v1 h1 (map (moved_from T) (take t xs) @ drop t xs))))"
proof -
  have p: "ptr_add (Vector_begin v) j = (buffer_f (data_f v), j)" for j
    by (simp add: ptr_add_def Vector_begin_def GetAddress_def)
  have sz: "size_f v = length xs" using assms(1) by (simp add: holds_iff)
  have ve: "Vector_end v = (buffer_f (data_f v), length xs)"
    by (simp add: Vector_end_def RawMemory_plus_def sz)
  have full: "size_f v = Capacity v" using assms(2) by (simp add: Size_def)
  have main: "e \<noteq> UndefinedBehaviour \<and> v1 = v \<and> avail h1 = avail h \<and>
           (\<forall>a. a \<noteq> buffer_f (data_f v) \<longrightarrow> blocks h1 a = blocks h a) \<and>
           ((blocks h1 = blocks h \<and> holds v1 h1 xs) \<or>
            (relocates_by_move T \<and> e = ElementThrow \<and> \<not> new_element_throws T arg x \<and>
             (\<exists>t<length xs. move_ctor_throws T (xs ! t) \<and>
                (\<forall>j<t. \<not> move_ctor_throws T (xs ! j)) \<and>
                holds v1 h1 (map (moved_from T) (take t xs) @ drop t xs))))"
    if le: "j \<le> length xs" and r: "Emplace T (buffer_f (data_f v), j) arg v h = (Inl e, v1, h1)"
    for j e v1 h1
  proof -
    from Emplace_spec[OF assms(1) le assms(4,5) storage_is_object_fits[OF assms(6)]] r
    obtain e' h' where f: "Emplace T (buffer_f (data_f v), j) arg v h = (Inl e', v, h')"
      "(e' = BadAlloc \<and> size_f v = Capacity v \<and>
              avail h < (if size_f v = 0 then 1 else 2 * Capacity v)) \<or>
             (e' = ElementThrow \<and> (\<exists>y. ctor_throws T y \<or> move_assign_throws T y))"
      "size_f v = Capacity v \<longrightarrow>
               avail h' = avail h \<and>
               (\<forall>a. a \<noteq> buffer_f (data_f v) \<longrightarrow> blocks h' a = blocks h a) \<and>
               (blocks h' = blocks h \<or>
                (relocates_by_move T \<and> e' = ElementThrow \<and> \<not> new_element_throws T arg x \<and>
                 (\<exists>t<length xs. move_ctor_throws T (xs ! t) \<and>
                    (\<forall>j<t. \<not> move_ctor_throws T (xs ! j)) \<and>
                    holds v h' (map (moved_from T) (take t xs) @ drop t xs))))"
      by auto
    from f(1) r have eq: "e' = e" "v1 = v" "h' = h1" by simp_all
    have "blocks h1 = blocks h \<Longrightarrow> holds v h1 xs"
      using assms(1) holds_blocks_cong[of h1 h v xs] by simp
    then show ?thesis using f(2,3) full unfolding eq by blast
  qed
  have eb: "Emplace T (buffer_f (data_f v), length xs) arg v h = (Inl e, v1, h1)"
    if "EmplaceBack T arg v h = (Inl e, v1, h1)" for e v1 h1
    using that by (simp add: EmplaceBack_def ve)
  have pb: "EmplaceBack T arg v h = (Inl e, v1, h1)"
    if "PushBack T arg v h = (Inl e, v1, h1)" for e v1 h1
    using that by (auto simp: PushBack_def split: prod.splits sum.splits)
  show ?thesis
  proof (intro allI impI)
    fix e v1 h1
    assume "Emplace T (ptr_add (Vector_begin v) k) arg v h = (Inl e, v1, h1) \<or>
           EmplaceBack T arg v h = (Inl e, v1, h1) \<or>
           PushBack T arg v h = (Inl e, v1, h1)"
    then consider "Emplace T (buffer_f (data_f v), k) arg v h = (Inl e, v1, h1)"
      | "Emplace T (buffer_f (data_f v), length xs) arg v h = (Inl e, v1, h1)"
      unfolding p using eb pb by blast
    then show "e \<noteq> UndefinedBehaviour \<and> v1 = v \<and> avail h1 = avail h \<and>
           (\<forall>a. a \<noteq> buffer_f (data_f v) \<longrightarrow> blocks h1 a = blocks h a) \<and>
           ((blocks h1 = blocks h \<and> holds v1 h1 xs) \<or>
            (relocates_by_move T \<and> e = ElementThrow \<and> \<not> new_element_throws T arg x \<and>
             (\<exists>t<length xs. move_ctor_throws T (xs ! t) \<and>
                (\<forall>j<t. \<not> move_ctor_throws T (xs ! j)) \<and>
                holds v1 h1 (map (moved_from T) (take t xs) @ drop t xs))))"
    proof cases
      case 1
      then show ?thesis by (rule main[OF assms(3)])
    next
      case 2
      then show ?thesis by (rule main[OF order_refl])
    qed
  qed
qed

theorem Emplace_growth_keeps_state_on_throw_witness:
  "holds (vector_at 1 2 2) (heap_of_two [Live (5::int), Live 13] []) [5, 13] \<and>
   Size (vector_at 1 2 2) = Capacity (vector_at 1 2 2) \<and>
   arg_value (heap_of_two [Live (5::int), Live 13] []) (CopyOf 9) = Some 9 \<and>
   storage_is_object throwing_copy (vector_at 1 2 2) \<and>
   \<not> relocates_by_move throwing_copy \<and>
   fst push_copyable = Inl ElementThrow \<and>
   fst (snd push_copyable) = vector_at 1 2 2 \<and>
   holds (fst (snd push_copyable)) (snd (snd push_copyable)) [5, 13] \<and>
   fst emplace_back_copyable = Inl ElementThrow \<and>
   fst (snd emplace_back_copyable) = vector_at 1 2 2 \<and>
   holds (fst (snd emplace_back_copyable)) (snd (snd emplace_back_copyable)) [5, 13] \<and>
   fst push_back_copyable = Inl ElementThrow \<and>
   fst (snd push_back_copyable) = vector_at 1 2 2 \<and>
   holds (fst (snd push_back_copyable)) (snd (snd push_back_copyable)) [5, 13] \<and>
   arg_value (heap_of_two [Live (5::int), Live 13] []) (MoveOf 9) = Some 9 \<and>
   storage_is_object throwing_move_only (vector_at 1 2 2) \<and>
   fst push_move_only = Inl ElementThrow \<and>
   fst (snd push_move_only) = vector_at 1 2 2 \<and>
   holds (fst (snd push_move_only)) (snd (snd push_move_only)) [0, 13]"
proof -
  let ?v = "vector_at 1 2 2"
  let ?h = "heap_of_two [Live (5::int), Live 13] []"
  have h: "holds ?v ?h [5, 13]" by code_simp
  have c: "Size ?v = Capacity ?v" by code_simp
  have k: "(2::nat) \<le> length [5::int, 13]" by simp
  have a: "arg_value ?h (CopyOf 9) = Some 9" by code_simp
  have f: "blocks ?h (Suc (next_addr ?h)) = None" by code_simp
  have o: "storage_is_object throwing_copy ?v"
    by (simp add: storage_is_object_def PTRDIFF_MAX_def throwing_copy_def vector_at_def
        Capacity_def RawMemory_Capacity_def)
  have nm: "\<not> relocates_by_move throwing_copy"
    by (simp add: relocates_by_move_def throwing_copy_def)
  have b: "ptr_add (Vector_begin ?v) 2 = (1, 2)" by code_simp
  note t = Emplace_growth_keeps_state_on_throw[OF h c k a f o, unfolded b, rule_format]
  have r1: "fst push_copyable = Inl ElementThrow" by code_simp
  then have "Emplace throwing_copy (1, 2) (CopyOf 9) ?v ?h =
      (Inl ElementThrow, fst (snd push_copyable), snd (snd push_copyable))"
    unfolding push_copyable_def by (metis prod.collapse)
  then have w1: "fst (snd push_copyable) = ?v \<and>
      holds (fst (snd push_copyable)) (snd (snd push_copyable)) [5, 13]"
    using t[of ElementThrow "fst (snd push_copyable)" "snd (snd push_copyable)"] nm by blast
  have r2: "fst emplace_back_copyable = Inl ElementThrow" by code_simp
  then have "EmplaceBack throwing_copy (CopyOf 9) ?v ?h =
      (Inl ElementThrow, fst (snd emplace_back_copyable), snd (snd emplace_back_copyable))"
    unfolding emplace_back_copyable_def by (metis prod.collapse)
  then have w2: "fst (snd emplace_back_copyable) = ?v \<and>
      holds (fst (snd emplace_back_copyable)) (snd (snd emplace_back_copyable)) [5, 13]"
    using t[of ElementThrow "fst (snd emplace_back_copyable)" "snd (snd emplace_back_copyable)"] nm
    by blast
  have r3: "fst push_back_copyable = Inl ElementThrow" by code_simp
  then have "PushBack throwing_copy (CopyOf 9) ?v ?h =
      (Inl ElementThrow, fst (snd push_back_copyable), snd (snd push_back_copyable))"
    unfolding push_back_copyable_def by (metis prod.collapse)
  then have w3: "fst (snd push_back_copyable) = ?v \<and>
      holds (fst (snd push_back_copyable)) (snd (snd push_back_copyable)) [5, 13]"
    using t[of ElementThrow "fst (snd push_back_copyable)" "snd (snd push_back_copyable)"] nm
    by blast
  have a': "arg_value ?h (MoveOf 9) = Some 9" by code_simp
  have o': "storage_is_object throwing_move_only ?v"
    by (simp add: storage_is_object_def PTRDIFF_MAX_def throwing_move_only_def vector_at_def
        Capacity_def RawMemory_Capacity_def)
  note t' = Emplace_growth_keeps_state_on_throw[OF h c k a' f o', unfolded b, rule_format]
  have r4: "fst push_move_only = Inl ElementThrow" by code_simp
  then have "Emplace throwing_move_only (1, 2) (MoveOf 9) ?v ?h =
      (Inl ElementThrow, fst (snd push_move_only), snd (snd push_move_only))"
    unfolding push_move_only_def by (metis prod.collapse)
  then have m: "fst (snd push_move_only) = ?v"
    "(blocks (snd (snd push_move_only)) = blocks ?h \<and>
      holds (fst (snd push_move_only)) (snd (snd push_move_only)) [5, 13]) \<or>
     (\<exists>t<length [5::int, 13]. move_ctor_throws throwing_move_only ([5, 13] ! t) \<and>
        (\<forall>j<t. \<not> move_ctor_throws throwing_move_only ([5, 13] ! j)) \<and>
        holds (fst (snd push_move_only)) (snd (snd push_move_only))
          (map (moved_from throwing_move_only) (take t [5, 13]) @ drop t [5, 13]))"
    using t'[of ElementThrow "fst (snd push_move_only)" "snd (snd push_move_only)"] by blast+
  have nh: "\<not> holds (fst (snd push_move_only)) (snd (snd push_move_only)) [5, 13]" by code_simp
  from m(2) nh obtain t where t2: "t < length [5::int, 13]"
    "move_ctor_throws throwing_move_only ([5, 13] ! t)"
    "holds (fst (snd push_move_only)) (snd (snd push_move_only))
          (map (moved_from throwing_move_only) (take t [5, 13]) @ drop t [5, 13])"
    by blast
  have "t = 1"
  proof (cases t)
    case 0
    then show ?thesis using t2(2) by (simp add: throwing_move_only_def)
  next
    case (Suc j)
    then show ?thesis using t2(1) by simp
  qed
  then have w4: "holds (fst (snd push_move_only)) (snd (snd push_move_only)) [0, 13]"
    using t2(3) by (simp add: throwing_move_only_def)
  show ?thesis using h c a o nm r1 w1 r2 w2 r3 w3 a' o' r4 m(1) w4 by blast
qed


text \<open>
  C3 as stated fails for a move-only \<^verbatim>\<open>T\<close> whose move constructor throws: the relocation
  of \<open>[5, 13]\<close> moves 5 out, throws at 13, and the vector is left holding the
  moved-from object and 13.
\<close>

theorem Emplace_growth_move_only_loses_elements:
  "holds (vector_at 1 2 2) (heap_of_two [Live (5::int), Live 13] []) [5, 13] \<and>
   Size (vector_at 1 2 2) = Capacity (vector_at 1 2 2) \<and>
   fst push_move_only = Inl ElementThrow \<and>
   storage (fst (snd push_move_only)) (snd (snd push_move_only)) = [Live 0, Live 13] \<and>
   \<not> holds (fst (snd push_move_only)) (snd (snd push_move_only)) [5, 13]"
  by code_simp

subsection \<open>Erase\<close>




subsection \<open>Growth\<close>

lemma Emplace_realloc_growth:
  "Emplace_realloc T pos arg v h = (Inr p, v1, h1) \<Longrightarrow>
   size_f v1 = Suc (size_f v) \<and> Capacity v1 = (if size_f v = 0 then 1 else 2 * Capacity v)"
  by (auto simp: Emplace_realloc_def Capacity_def RawMemory_Capacity_def RawMemory_ctor_def
      Allocate_def RawMemory_Swap_def Let_def split: prod.splits sum.splits if_splits)

lemma Emplace_growth:
  "Emplace T pos arg v h = (Inr p, v1, h1) \<Longrightarrow>
   size_f v1 = Suc (size_f v) \<and>
   Capacity v1 = (if size_f v = Capacity v then (if size_f v = 0 then 1 else 2 * Capacity v)
                  else Capacity v)"
  by (auto simp: Emplace_def Emplace_at_end_def Emplace_shift_def Capacity_def
      RawMemory_Capacity_def Let_def
      dest!: Emplace_realloc_growth split: prod.splits sum.splits if_splits)

lemma PushBack_growth:
  "PushBack T arg v h = (Inr u, v1, h1) \<Longrightarrow>
   size_f v1 = Suc (size_f v) \<and>
   Capacity v1 = (if size_f v = Capacity v then (if size_f v = 0 then 1 else 2 * Capacity v)
                  else Capacity v)"
  by (auto simp: PushBack_def EmplaceBack_def dest!: Emplace_growth split: prod.splits sum.splits)

lemma doubled_step:
  assumes "doubled n c"
  shows "doubled (Suc n) (if n = c then (if n = 0 then 1 else 2 * c) else c)"
proof (cases "n = 0")
  case True
  with assms have c: "c = 0" by (auto simp: doubled_def)
  have "doubled (Suc 0) 1"
    unfolding doubled_def by (intro disjI2 exI[of _ 0]) simp
  then show ?thesis using True c by simp
next
  case False
  with assms obtain i where i: "c = 2 ^ i" "n \<le> c" "c < 2 * n" by (auto simp: doubled_def)
  show ?thesis
  proof (cases "n = c")
    case True
    have "2 * c = 2 ^ Suc i" using i(1) by simp
    moreover have "Suc n \<le> 2 * c" using True False by simp
    moreover have "2 * c < 2 * Suc n" using True by simp
    ultimately have "doubled (Suc n) (2 * c)"
      unfolding doubled_def by (intro disjI2 exI[of _ "Suc i"]) simp
    then show ?thesis using True False by simp
  next
    case ne: False
    then have "Suc n \<le> c" "c < 2 * Suc n" using i by simp_all
    then have "doubled (Suc n) c"
      unfolding doubled_def using i(1) by (intro disjI2 exI[of _ i]) simp
    then show ?thesis using ne by simp
  qed
qed

lemma push_all_doubled:
  "push_all T args v h = (Inr u, v1, h1) \<Longrightarrow> doubled (size_f v) (Capacity v) \<Longrightarrow>
   size_f v1 = size_f v + length args \<and> doubled (size_f v1) (Capacity v1)"
proof (induction args arbitrary: v h)
  case Nil
  then show ?case by simp
next
  case (Cons arg args)
  from Cons.prems(1) obtain w v2 h2 where pb: "PushBack T arg v h = (Inr w, v2, h2)"
    and rest: "push_all T args v2 h2 = (Inr u, v1, h1)"
    by (auto split: prod.splits sum.splits)
  from PushBack_growth[OF pb] have g: "size_f v2 = Suc (size_f v)"
    "Capacity v2 = (if size_f v = Capacity v then (if size_f v = 0 then 1 else 2 * Capacity v)
                  else Capacity v)"
    by simp_all
  have "doubled (size_f v2) (Capacity v2)"
    unfolding g using doubled_step[OF Cons.prems(2)] by simp
  from Cons.IH[OF rest this] have "size_f v1 = size_f v2 + length args"
    "doubled (size_f v1) (Capacity v1)" by blast+
  then show ?case using g(1) by simp
qed

lemma Reserve_capacity_exact:
  "RawMemory_Capacity (data_f v) < n \<Longrightarrow> Reserve T n v h = (Inr u, v1, h1) \<Longrightarrow> Capacity v1 = n"
  by (auto simp: Reserve_def Capacity_def RawMemory_Capacity_def RawMemory_ctor_def Allocate_def
      RawMemory_Swap_def Let_def split: prod.splits sum.splits if_splits)

lemma Reserve_spec:
  assumes hv: "holds v h xs" and gt: "capacity_f (data_f v) < n'"
    and fresh: "blocks h (Suc (next_addr h)) = None"
    and rf: "request_fits T n'"
  shows "(\<exists>e h1. Reserve T n' v h = (Inl e, v, h1) \<and>
            ((e = BadAlloc \<and> avail h < n') \<or> (e = ElementThrow \<and> (\<exists>y. ctor_throws T y))) \<and>
            ((blocks h1 = blocks h \<and> avail h1 = avail h) \<or>
             (relocates_by_move T \<and> (\<exists>y. move_ctor_throws T y)))) \<or>
         (\<exists>h1. Reserve T n' v h =
              (Inr (), v\<lparr>data_f := \<lparr>buffer_f = Suc (next_addr h), capacity_f = n'\<rparr>\<rparr>, h1) \<and>
            holds (v\<lparr>data_f := \<lparr>buffer_f = Suc (next_addr h), capacity_f = n'\<rparr>\<rparr>) h1 xs)"
proof -
  define b where "b = buffer_f (data_f v)"
  define c where "c = capacity_f (data_f v)"
  define n where "n = length xs"
  define nb where "nb = Suc (next_addr h)"
  define nd where "nd = \<lparr>buffer_f = nb, capacity_f = n'\<rparr>"
  from hv have inv: "RawMemory_inv (data_f v)" and sz: "size_f v = n" and le: "n \<le> c"
    and sl: "\<And>j. slot_at h (b, j) =
        (if j < n then Some (Live (xs ! j)) else if j < c then Some Uninit else None)"
    by (simp_all add: holds_iff b_def c_def n_def)
  have cn: "c < n'" using gt by (simp add: c_def)
  have n0: "0 < n'" using cn by simp
  have nn: "nb \<noteq> nullptr" by (simp add: nb_def nullptr_def)
  have fr: "slot_at h (nb, j) = None" for j using fresh by (simp add: slot_at_def nb_def)
  have fresh': "blocks h nb = None" using fresh by (simp add: nb_def)
  have bnb: "b \<noteq> nb"
  proof (cases "c = 0")
    case True
    then have "b = nullptr" using inv by (simp add: RawMemory_inv_def b_def c_def)
    then show ?thesis using nn by simp
  next
    case False
    then have "slot_at h (b, 0) \<noteq> None" by (simp add: sl)
    then show ?thesis using fr[of 0] by auto
  qed
  have gb: "GetAddress (data_f v) = (b, 0)" by (simp add: GetAddress_def b_def)
  have ga: "GetAddress nd = (nb, 0)" by (simp add: GetAddress_def nd_def)
  have sw: "RawMemory_Swap (data_f v) nd = (nd, data_f v)"
    unfolding nd_def by (rule RawMemory_Swap_new)
  have ncap: "\<not> n' \<le> RawMemory_Capacity (data_f v)"
    using cn by (simp add: RawMemory_Capacity_def c_def)
  from RawMemory_ctor_spec[OF n0 fresh rf]
  have "(\<exists>e h1. Reserve T n' v h = (Inl e, v, h1) \<and>
            ((e = BadAlloc \<and> avail h < n') \<or> (e = ElementThrow \<and> (\<exists>y. ctor_throws T y))) \<and>
            ((blocks h1 = blocks h \<and> avail h1 = avail h) \<or>
             (relocates_by_move T \<and> (\<exists>y. move_ctor_throws T y)))) \<or>
         (\<exists>h1. Reserve T n' v h = (Inr (), v\<lparr>data_f := nd\<rparr>, h1) \<and>
            holds (v\<lparr>data_f := nd\<rparr>) h1 xs)"
  proof
    assume f: "RawMemory_ctor T n' h = (Inl BadAlloc, h) \<and> avail h < n'"
    have "Reserve T n' v h = (Inl BadAlloc, v, h)"
      using ncap by (simp add: Reserve_def f)
    then show ?thesis using f
      by (intro disjI1 exI[of _ BadAlloc] exI[of _ h]) blast
  next
    assume "\<exists>h1. RawMemory_ctor T n' h = (Inr \<lparr>buffer_f = Suc (next_addr h), capacity_f = n'\<rparr>, h1) \<and>
            n' \<le> avail h \<and> avail h1 = avail h - n' \<and>
            blocks h1 = (blocks h)(Suc (next_addr h) \<mapsto> replicate n' Uninit) \<and>
            (\<forall>a j. slot_at h1 (a, j) =
               (if a = Suc (next_addr h) then (if j < n' then Some Uninit else None)
                else slot_at h (a, j)))"
    then obtain h1 where rc: "RawMemory_ctor T n' h = (Inr nd, h1)"
      and a1: "n' \<le> avail h" "avail h1 = avail h - n'"
      and bl: "blocks h1 = (blocks h)(nb \<mapsto> replicate n' Uninit)"
      and s1: "\<And>a j. slot_at h1 (a, j) =
               (if a = nb then (if j < n' then Some Uninit else None) else slot_at h (a, j))"
      unfolding nb_def nd_def by blast
    have er: "Reserve T n' v h =
        (case CopyOrMoveInNewData T (b, 0) n (nb, 0) h1 of
           (Inl e, h2) \<Rightarrow> (Inl e, v, RawMemory_dtor nd h2)
         | (Inr _, h2) \<Rightarrow>
             (case destroy_n (b, 0) n h2 of
                Inl e \<Rightarrow> (Inl e, v, h2)
              | Inr h3 \<Rightarrow> (Inr (), v\<lparr>data_f := nd\<rparr>, RawMemory_dtor (data_f v) h3)))"
      using ncap
      by (simp add: Reserve_def rc gb ga sw sz cong: prod.case_cong sum.case_cong)
    have src: "\<forall>j<n. \<exists>y. slot_at h1 (b, 0 + j) = Some (Live y)"
      using bnb by (simp add: s1 sl)
    have dst: "\<forall>j<n. slot_at h1 (nb, 0 + j) = Some Uninit"
      using le cn by (simp add: s1)
    from CopyOrMoveInNewData_spec[OF bnb src dst, of T] show ?thesis
    proof
      assume "\<exists>h2 y. CopyOrMoveInNewData T (b, 0) n (nb, 0) h1 = (Inl ElementThrow, h2) \<and>
            ctor_throws T y \<and> (relocates_by_move T \<longrightarrow> move_ctor_throws T y) \<and>
            same_shape h1 h2 \<and>
            (\<forall>a j. a \<noteq> b \<longrightarrow> slot_at h2 (a, j) = slot_at h1 (a, j)) \<and>
            (\<not> relocates_by_move T \<longrightarrow> h2 = h1) \<and>
            (relocates_by_move T \<longrightarrow>
               (\<exists>t<n. move_throws_at T b (0 + t) h1 \<and> moves_ok T b 0 t h1 \<and>
                  moved_range T b 0 t h1 h2))"
      then obtain h2 y where f: "CopyOrMoveInNewData T (b, 0) n (nb, 0) h1 = (Inl ElementThrow, h2)"
        "ctor_throws T y" "relocates_by_move T \<longrightarrow> move_ctor_throws T y"
        "\<not> relocates_by_move T \<longrightarrow> h2 = h1"
        by blast
      have "(blocks (RawMemory_dtor nd h2) = blocks h \<and> avail (RawMemory_dtor nd h2) = avail h) \<or>
            (relocates_by_move T \<and> (\<exists>y. move_ctor_throws T y))"
      proof (cases "relocates_by_move T")
        case True
        then show ?thesis using f(3) by blast
      next
        case False
        then have e: "h2 = h1" using f(4) by simp
        have "slot_at h1 (a, j) = slot_at h (a, j)" if "a \<noteq> nb" for a j
          using that by (simp add: s1)
        with fresh' nn bl a1(2,1) same_shape_refl
        have "blocks (RawMemory_dtor \<lparr>buffer_f = nb, capacity_f = n'\<rparr> h1) = blocks h \<and>
              avail (RawMemory_dtor \<lparr>buffer_f = nb, capacity_f = n'\<rparr> h1) = avail h"
          by (rule RawMemory_dtor_restores)
        then show ?thesis by (simp add: e nd_def)
      qed
      moreover have "Reserve T n' v h = (Inl ElementThrow, v, RawMemory_dtor nd h2)"
        by (simp add: er f(1))
      ultimately show ?thesis using f(2)
        by (intro disjI1 exI[of _ ElementThrow] exI[of _ "RawMemory_dtor nd h2"]) blast
    next
      assume "\<exists>h2. CopyOrMoveInNewData T (b, 0) n (nb, 0) h1 = (Inr (nb, 0 + n), h2) \<and>
            same_shape h1 h2 \<and>
            (\<forall>a j. a \<noteq> b \<longrightarrow> slot_at h2 (a, j) =
               (if a = nb \<and> 0 \<le> j \<and> j < 0 + n then slot_at h1 (b, 0 + (j - 0))
                else slot_at h1 (a, j))) \<and>
            (\<forall>j. \<not> (0 \<le> j \<and> j < 0 + n) \<longrightarrow> slot_at h2 (b, j) = slot_at h1 (b, j)) \<and>
            (\<forall>j. 0 \<le> j \<and> j < 0 + n \<longrightarrow> (\<exists>y. slot_at h2 (b, j) = Some (Live y))) \<and>
            (\<not> relocates_by_move T \<longrightarrow> (\<forall>j. slot_at h2 (b, j) = slot_at h1 (b, j))) \<and>
            (relocates_by_move T \<longrightarrow> moves_ok T b 0 n h1 \<and> moved_range T b 0 n h1 h2)"
      then obtain h2 where H2: "CopyOrMoveInNewData T (b, 0) n (nb, 0) h1 = (Inr (nb, 0 + n), h2) \<and>
            same_shape h1 h2 \<and>
            (\<forall>a j. a \<noteq> b \<longrightarrow> slot_at h2 (a, j) =
               (if a = nb \<and> 0 \<le> j \<and> j < 0 + n then slot_at h1 (b, 0 + (j - 0))
                else slot_at h1 (a, j))) \<and>
            (\<forall>j. \<not> (0 \<le> j \<and> j < 0 + n) \<longrightarrow> slot_at h2 (b, j) = slot_at h1 (b, j)) \<and>
            (\<forall>j. 0 \<le> j \<and> j < 0 + n \<longrightarrow> (\<exists>y. slot_at h2 (b, j) = Some (Live y))) \<and>
            (\<not> relocates_by_move T \<longrightarrow> (\<forall>j. slot_at h2 (b, j) = slot_at h1 (b, j))) \<and>
            (relocates_by_move T \<longrightarrow> moves_ok T b 0 n h1 \<and> moved_range T b 0 n h1 h2)" ..
      note c2 = H2[THEN conjunct1]
      note o2r = H2[THEN conjunct2, THEN conjunct2, THEN conjunct1, rule_format]
      note l2r = H2[THEN conjunct2, THEN conjunct2, THEN conjunct2, THEN conjunct2,
                    THEN conjunct1, rule_format]
      have o2: "slot_at h2 (nb, j) =
          (if j < n then Some (Live (xs ! j)) else if j < n' then Some Uninit else None)" for j
        using o2r[of nb j] bnb le cn by (cases "j < n") (auto simp: s1 sl)
      have live: "\<forall>j<n. \<exists>y. slot_at h2 (b, 0 + j) = Some (Live y)"
        using l2r by simp
      from destroy_n_spec[OF live] obtain h3 where d3: "destroy_n (b, 0) n h2 = Inr h3"
        and s3: "\<And>a j. slot_at h3 (a, j) =
            (if a = b \<and> 0 \<le> j \<and> j < 0 + n then Some Uninit else slot_at h2 (a, j))"
        by blast
      define h4 where "h4 = RawMemory_dtor (data_f v) h3"
      have s4: "slot_at h4 (nb, j) = slot_at h3 (nb, j)" for j
        using Deallocate_spec[of b h3] bnb
        by (simp add: h4_def RawMemory_dtor_def b_def[symmetric])
      have "holds (v\<lparr>data_f := nd\<rparr>) h4 xs"
        unfolding holds_iff using nn le cn sz bnb
        by (auto simp: s4 s3 o2 nd_def RawMemory_inv_def n_def)
      moreover have "Reserve T n' v h = (Inr (), v\<lparr>data_f := nd\<rparr>, h4)"
        by (simp add: er c2 d3 h4_def)
      ultimately show ?thesis
        by (intro disjI2 exI[of _ h4]) blast
    qed
  qed
  then show ?thesis unfolding nb_def nd_def .
qed

text \<open>
  The growth rule. When \<^verbatim>\<open>Emplace\<close>, \<^verbatim>\<open>Insert\<close>, \<^verbatim>\<open>EmplaceBack\<close> or \<^verbatim>\<open>PushBack\<close> is called
  with \<open>Size = Capacity\<close> and returns, the new capacity is 1 if the old one is 0 and
  twice the old one otherwise. After \<open>n\<close> calls of \<^verbatim>\<open>PushBack\<close> on an empty vector the
  size is \<open>n\<close> and the capacity is 0 for \<open>n = 0\<close> and otherwise the least power of two
  that is at least \<open>n\<close>, so the capacities run through 0, 1, 2, 4, 8 and so on.
  \<^verbatim>\<open>Reserve(n)\<close> with \<open>n\<close> above the capacity leaves the capacity \<open>n\<close>; when the byte
  count \<^verbatim>\<open>n * sizeof(T)\<close> does not wrap, the new storage has exactly \<open>n\<close> slots and holds
  the same elements.
\<close>

lemma growth_capacities:
  "(Size v = Capacity v \<and> Emplace T cpos arg v h = (Inr p, v1, h1) \<longrightarrow>
      Capacity v1 = (if Capacity v = 0 then 1 else 2 * Capacity v)) \<and>
   Insert T cpos arg v h = Emplace T cpos arg v h \<and>
   EmplaceBack T arg v h = Emplace T (Vector_end v) arg v h \<and>
   (Size v = Capacity v \<and> PushBack T arg v h = (Inr u, v1, h1) \<longrightarrow>
      Capacity v1 = (if Capacity v = 0 then 1 else 2 * Capacity v)) \<and>
   (push_all T args Vector_default h = (Inr u, v2, h2) \<longrightarrow>
      Size v2 = length args \<and>
      (args = [] \<longrightarrow> Capacity v2 = 0) \<and>
      (args \<noteq> [] \<longrightarrow>
         (\<exists>i. Capacity v2 = 2 ^ i \<and> length args \<le> 2 ^ i \<and> 2 ^ i < 2 * length args))) \<and>
   (Capacity v < n \<and> Reserve T n v h = (Inr u, v3, h3) \<longrightarrow> Capacity v3 = n) \<and>
   (holds v h xs \<and> blocks h (Suc (next_addr h)) = None \<and> Capacity v < n \<and>
    request_fits T n \<and> Reserve T n v h = (Inr u, v3, h3) \<longrightarrow>
      length (storage v3 h3) = n \<and> holds v3 h3 xs)"
proof -
  have g: "Capacity w = (if Capacity v = 0 then 1 else 2 * Capacity v)"
    if "Size v = Capacity v" "Emplace T q arg v h = (Inr p, w, hw)" for q w hw
    using Emplace_growth[OF that(2)] that(1) by (auto simp: Size_def)
  have pb: "Capacity w = (if Capacity v = 0 then 1 else 2 * Capacity v)"
    if "Size v = Capacity v" "PushBack T arg v h = (Inr u, w, hw)" for w hw
    using PushBack_growth[OF that(2)] that(1) by (auto simp: Size_def)
  have pa: "Size v2 = length args \<and>
      (args = [] \<longrightarrow> Capacity v2 = 0) \<and>
      (args \<noteq> [] \<longrightarrow>
         (\<exists>i. Capacity v2 = 2 ^ i \<and> length args \<le> 2 ^ i \<and> 2 ^ i < 2 * length args))"
    if r: "push_all T args Vector_default h = (Inr u, v2, h2)"
  proof -
    have "doubled (size_f Vector_default) (Capacity Vector_default)"
      by (simp add: doubled_def Vector_default_def RawMemory_default_def Capacity_def
          RawMemory_Capacity_def)
    from push_all_doubled[OF r this]
    have "size_f v2 = length args" "doubled (length args) (Capacity v2)"
      by (auto simp: Vector_default_def)
    then show ?thesis by (auto simp: doubled_def Size_def)
  qed
  have rs: "Capacity v3 = n" if "Capacity v < n" "Reserve T n v h = (Inr u, v3, h3)"
    using Reserve_capacity_exact[OF _ that(2)] that(1) by (simp add: Capacity_def)
  have rh: "length (storage v3 h3) = n \<and> holds v3 h3 xs"
    if "holds v h xs" "blocks h (Suc (next_addr h)) = None" "Capacity v < n"
      "request_fits T n" "Reserve T n v h = (Inr u, v3, h3)"
  proof -
    have "capacity_f (data_f v) < n" using that(3) by (simp add: Capacity_def RawMemory_Capacity_def)
    from Reserve_spec[OF that(1) this that(2,4)] that(5)
    have "holds v3 h3 xs" by auto
    moreover from this have "length (storage v3 h3) = Capacity v3"
      by (simp add: holds_def Vector_inv_def)
    ultimately show ?thesis using rs[OF that(3,5)] by simp
  qed
  show ?thesis
    using g pb pa rs rh unfolding Insert_def EmplaceBack_def by blast
qed

lemma growth_capacities_example:
  "fst (pushed 5) = Inr () \<and>
   Size (fst (snd (pushed 5))) = 5 \<and>
   Capacity (fst (snd (pushed 0))) = 0 \<and>
   Capacity (fst (snd (pushed 1))) = 1 \<and>
   Capacity (fst (snd (pushed 2))) = 2 \<and>
   Capacity (fst (snd (pushed 3))) = 4 \<and>
   Capacity (fst (snd (pushed 4))) = 4 \<and>
   Capacity (fst (snd (pushed 5))) = 8 \<and>
   holds (vector_at 1 2 2) (heap_of_two [Live (5::int), Live 13] []) [5, 13] \<and>
   fst insert_full = Inr (3, 1) \<and>
   Capacity (fst (snd insert_full)) = 4 \<and>
   holds (fst (snd insert_full)) (snd (snd insert_full)) [5, 9, 13] \<and>
   request_fits plain_int 5 \<and>
   fst reserved = Inr () \<and>
   Capacity (fst (snd reserved)) = 5 \<and>
   length (storage (fst (snd reserved)) (snd (snd reserved))) = 5 \<and>
   holds (fst (snd reserved)) (snd (snd reserved)) [5, 13]"
proof -
  let ?v = "vector_at 1 2 2"
  let ?h = "heap_of_two [Live (5::int), Live 13] []"
  have p5: "fst (pushed 5) = Inr ()" by code_simp
  then have e5: "push_all plain_int (replicate 5 (CopyOf 7)) Vector_default empty_heap =
      (Inr (), fst (snd (pushed 5)), snd (snd (pushed 5)))"
    unfolding pushed_def by (metis prod.collapse)
  have s5: "Size (fst (snd (pushed 5))) = length (replicate 5 (CopyOf (7::int)))"
    using growth_capacities[where T = plain_int and args = "replicate 5 (CopyOf 7)"
        and h = empty_heap and u = "()" and ?v2.0 = "fst (snd (pushed 5))"
        and ?h2.0 = "snd (snd (pushed 5))"] e5
    by blast
  have caps: "Capacity (fst (snd (pushed 0))) = 0" "Capacity (fst (snd (pushed 1))) = 1"
    "Capacity (fst (snd (pushed 2))) = 2" "Capacity (fst (snd (pushed 3))) = 4"
    "Capacity (fst (snd (pushed 4))) = 4" "Capacity (fst (snd (pushed 5))) = 8"
    by code_simp+
  have hv: "holds ?v ?h [5, 13]" by code_simp
  have f: "blocks ?h (Suc (next_addr ?h)) = None" by code_simp
  have c: "Capacity ?v < 5" by code_simp
  have sc: "Size ?v = Capacity ?v" by code_simp
  have c2: "Capacity ?v = 2" by code_simp
  have i1: "fst insert_full = Inr (3, 1)" by code_simp
  then have ie: "Insert plain_int (1, 1) (CopyOf 9) ?v ?h =
      (Inr (3, 1), fst (snd insert_full), snd (snd insert_full))"
    unfolding insert_full_def by (metis prod.collapse)
  have ic: "Capacity (fst (snd insert_full)) = 4"
    using growth_capacities[where T = plain_int and v = ?v and h = ?h and cpos = "(1, 1)"
        and arg = "CopyOf 9" and p = "(3, 1)" and ?v1.0 = "fst (snd insert_full)"
        and ?h1.0 = "snd (snd insert_full)"] ie sc c2
    by simp
  have ih: "holds (fst (snd insert_full)) (snd (snd insert_full)) [5, 9, 13]" by code_simp
  have rf: "request_fits plain_int 5" by (simp add: request_fits_def plain_int_def)
  have r: "fst reserved = Inr ()" by code_simp
  then have e: "Reserve plain_int 5 ?v ?h = (Inr (), fst (snd reserved), snd (snd reserved))"
    unfolding reserved_def by (metis prod.collapse)
  have rs: "Capacity (fst (snd reserved)) = 5 \<and>
      length (storage (fst (snd reserved)) (snd (snd reserved))) = 5 \<and>
      holds (fst (snd reserved)) (snd (snd reserved)) [5, 13]"
    using growth_capacities[where T = plain_int and v = ?v and h = ?h and n = 5 and u = "()"
        and ?v3.0 = "fst (snd reserved)" and ?h3.0 = "snd (snd reserved)" and xs = "[5, 13]"]
      hv f c rf e
    by blast
  show ?thesis using p5 s5 caps hv i1 ic ih rf r rs by simp
qed

text \<open>
  C6. The doubling rule is as the claim states it, and so is \<^verbatim>\<open>Reserve\<close> as long as the
  byte count does not wrap. \<^verbatim>\<open>Reserve(2^62)\<close> on an empty vector of a four-byte type
  asks \<^verbatim>\<open>operator new\<close> for \<open>2^64 mod 2^64 = 0\<close> bytes: it returns, the capacity is
  \<open>2^62\<close>, and the storage has no slot at all, so the class invariant is broken and the
  next \<^verbatim>\<open>PushBack\<close> constructs the element outside the block.
\<close>

theorem Reserve_allocates_no_slot:
  "holds Vector_default empty_heap [] \<and>
   sizeof_T plain_int = 4 \<and>
   Capacity Vector_default < 2 ^ 62 \<and>
   fst reserve_huge = Inr () \<and>
   Capacity (fst (snd reserve_huge)) = 2 ^ 62 \<and>
   storage (fst (snd reserve_huge)) (snd (snd reserve_huge)) = [] \<and>
   length (storage (fst (snd reserve_huge)) (snd (snd reserve_huge))) \<noteq> 2 ^ 62 \<and>
   \<not> Vector_inv (fst (snd reserve_huge)) (snd (snd reserve_huge)) \<and>
   fst push_after_reserve_huge = Inl UndefinedBehaviour"
  by code_simp

subsection \<open>Capacity\<close>

lemma Reserve_capacity: "Reserve T n v h = (r, v1, h1) \<Longrightarrow> Capacity v \<le> Capacity v1"
  by (auto simp: Reserve_def Capacity_def RawMemory_Capacity_def RawMemory_ctor_def Allocate_def
      RawMemory_Swap_def Let_def split: prod.splits sum.splits if_splits)

lemma Resize_capacity: "Resize T n v h = (r, v1, h1) \<Longrightarrow> Capacity v \<le> Capacity v1"
  by (auto simp: Resize_def Capacity_def RawMemory_Capacity_def dest!: Reserve_capacity
      split: prod.splits sum.splits if_splits)

lemma PopBack_capacity: "PopBack v h = (r, v1, h1) \<Longrightarrow> Capacity v1 = Capacity v"
  by (auto simp: PopBack_def Capacity_def Let_def split: prod.splits sum.splits if_splits)

lemma Erase_capacity: "Erase T cpos v h = (r, v1, h1) \<Longrightarrow> Capacity v1 = Capacity v"
  by (auto simp: Erase_def Let_def dest!: PopBack_capacity split: prod.splits sum.splits if_splits)

lemma Emplace_realloc_capacity:
  "size_f v = Capacity v \<Longrightarrow> Emplace_realloc T pos arg v h = (r, v1, h1) \<Longrightarrow>
   Capacity v \<le> Capacity v1"
  by (auto simp: Emplace_realloc_def Capacity_def RawMemory_Capacity_def RawMemory_ctor_def
      Allocate_def RawMemory_Swap_def Let_def split: prod.splits sum.splits if_splits)

lemma Emplace_capacity: "Emplace T pos arg v h = (r, v1, h1) \<Longrightarrow> Capacity v \<le> Capacity v1"
  by (auto simp: Emplace_def Emplace_at_end_def Emplace_shift_def Capacity_def
      RawMemory_Capacity_def Let_def
      dest!: Emplace_realloc_capacity[rotated] split: prod.splits sum.splits if_splits)

lemma PushBack_capacity: "PushBack T arg v h = (r, v1, h1) \<Longrightarrow> Capacity v \<le> Capacity v1"
  by (auto simp: PushBack_def EmplaceBack_def dest!: Emplace_capacity
      split: prod.splits sum.splits)

lemma CopyWithOldCopacity_capacity:
  "CopyWithOldCopacity T rhs v h = (r, v1, h1) \<Longrightarrow> Capacity v1 = Capacity v"
  by (auto simp: CopyWithOldCopacity_def Capacity_def RawMemory_Capacity_def Let_def
      split: prod.splits sum.splits if_splits)

lemma Vector_copy_assign_capacity:
  "Vector_copy_assign T this rhs s h = (r, s1, h1) \<Longrightarrow> Capacity (s this) \<le> Capacity (s1 this)"
  by (auto simp: Vector_copy_assign_def Vector_copy_ctor_def Vector_Swap_def RawMemory_Swap_def
      RawMemory_ctor_def Capacity_def Size_def RawMemory_Capacity_def
      dest!: CopyWithOldCopacity_capacity split: prod.splits sum.splits if_splits)

text \<open>
  C5. No operation other than move construction, move assignment and \<^verbatim>\<open>Swap\<close> decreases
  \<^verbatim>\<open>Capacity()\<close>: after \<^verbatim>\<open>Reserve\<close>, \<^verbatim>\<open>Resize\<close>, \<^verbatim>\<open>PopBack\<close>, \<^verbatim>\<open>Erase\<close>, \<^verbatim>\<open>Emplace\<close>,
  \<^verbatim>\<open>EmplaceBack\<close>, \<^verbatim>\<open>PushBack\<close>, \<^verbatim>\<open>Insert\<close> and the copy assignment the capacity is at
  least what it was, whether the operation returns or throws.
\<close>

theorem capacity_never_decreases:
  "Capacity v \<le> Capacity (fst (snd (Reserve T n v h))) \<and>
   Capacity v \<le> Capacity (fst (snd (Resize T n v h))) \<and>
   Capacity v \<le> Capacity (fst (snd (PopBack v h))) \<and>
   Capacity v \<le> Capacity (fst (snd (Erase T cpos v h))) \<and>
   Capacity v \<le> Capacity (fst (snd (Emplace T cpos arg v h))) \<and>
   Capacity v \<le> Capacity (fst (snd (EmplaceBack T arg v h))) \<and>
   Capacity v \<le> Capacity (fst (snd (PushBack T arg v h))) \<and>
   Capacity v \<le> Capacity (fst (snd (Insert T cpos arg v h))) \<and>
   Capacity (s this) \<le> Capacity (fst (snd (Vector_copy_assign T this rhs s h)) this)"
proof -
  have "Capacity v \<le> Capacity (fst (snd (Reserve T n v h)))"
    by (cases "Reserve T n v h") (auto dest: Reserve_capacity)
  moreover have "Capacity v \<le> Capacity (fst (snd (Resize T n v h)))"
    by (cases "Resize T n v h") (auto dest: Resize_capacity)
  moreover have "Capacity v \<le> Capacity (fst (snd (PopBack v h)))"
    by (cases "PopBack v h") (auto dest: PopBack_capacity)
  moreover have "Capacity v \<le> Capacity (fst (snd (Erase T cpos v h)))"
    by (cases "Erase T cpos v h") (auto dest: Erase_capacity)
  moreover have "Capacity v \<le> Capacity (fst (snd (Emplace T p arg v h)))" for p
    by (cases "Emplace T p arg v h") (auto dest: Emplace_capacity)
  moreover have "Capacity v \<le> Capacity (fst (snd (PushBack T arg v h)))"
    by (cases "PushBack T arg v h") (auto dest: PushBack_capacity)
  moreover have "Capacity (s this) \<le> Capacity (fst (snd (Vector_copy_assign T this rhs s h)) this)"
    by (cases "Vector_copy_assign T this rhs s h") (auto dest: Vector_copy_assign_capacity)
  ultimately show ?thesis
    by (simp add: EmplaceBack_def Insert_def)
qed

subsection \<open>Assertions and assignment operators\<close>

text \<open>
  C9. The conditions asserted by \<^verbatim>\<open>Emplace\<close> and \<^verbatim>\<open>Erase\<close> are disjunctions that hold for
  every pointer, those outside \<open>[begin, end]\<close> included, so neither assertion ever
  rejects a position.
\<close>

theorem position_assertions_always_hold:
  "Emplace_assertion v cpos \<and> Erase_assertion v cpos"
  by (auto simp: Emplace_assertion_def Erase_assertion_def cbegin_def cend_def Vector_begin_def
      Vector_end_def GetAddress_def RawMemory_plus_def ptr_le_def ptr_lt_def)

text \<open>
  C10. Move-assigning a vector to itself changes nothing: the store of vectors is the
  same afterwards, and the operator does not touch the heap.
\<close>

theorem Vector_self_move_assign_noop:
  "Vector_move_assign this this s = s"
  by (simp add: Vector_move_assign_def)

text \<open>
  C2, as amended. Move-assigning \<open>rhs\<close> to another \<^verbatim>\<open>RawMemory\<close> \<open>lhs\<close> exchanges the two:
  \<open>lhs\<close> holds the former buffer and capacity of \<open>rhs\<close>, and \<open>rhs\<close> holds the former
  buffer and capacity of \<open>lhs\<close>.
\<close>

theorem RawMemory_move_assign_exchanges:
  "this \<noteq> rhs \<Longrightarrow>
   buffer_f (RawMemory_move_assign this rhs s this) = buffer_f (s rhs) \<and>
   capacity_f (RawMemory_move_assign this rhs s this) = capacity_f (s rhs) \<and>
   buffer_f (RawMemory_move_assign this rhs s rhs) = buffer_f (s this) \<and>
   capacity_f (RawMemory_move_assign this rhs s rhs) = capacity_f (s this)"
  by (simp add: RawMemory_move_assign_def RawMemory_Swap_def)

theorem RawMemory_move_assign_exchanges_witness:
  "(0::nat) \<noteq> 1 \<and>
   buffer_f (RawMemory_move_assign 0 1
      (two_objects \<lparr>buffer_f = 1, capacity_f = 4\<rparr> \<lparr>buffer_f = 2, capacity_f = 8\<rparr>) 0) = 2 \<and>
   capacity_f (RawMemory_move_assign 0 1
      (two_objects \<lparr>buffer_f = 1, capacity_f = 4\<rparr> \<lparr>buffer_f = 2, capacity_f = 8\<rparr>) 1) = 4"
  using RawMemory_move_assign_exchanges
    [of 0 1 "two_objects \<lparr>buffer_f = 1, capacity_f = 4\<rparr> \<lparr>buffer_f = 2, capacity_f = 8\<rparr>"]
  by (simp add: two_objects_def)

text \<open>
  C2 as stated fails: after the move assignment to a \<^verbatim>\<open>RawMemory\<close> that owned a block,
  \<open>rhs\<close> is not empty, it owns that block.
\<close>

theorem RawMemory_move_assign_source_not_emptied:
  "\<not> (buffer_f (RawMemory_move_assign 0 1
          (two_objects \<lparr>buffer_f = 1, capacity_f = 4\<rparr> \<lparr>buffer_f = 2, capacity_f = 8\<rparr>) 1)
        = nullptr \<and>
       capacity_f (RawMemory_move_assign 0 1
          (two_objects \<lparr>buffer_f = 1, capacity_f = 4\<rparr> \<lparr>buffer_f = 2, capacity_f = 8\<rparr>) 1)
        = 0)"
  by (simp add: RawMemory_move_assign_def RawMemory_Swap_def two_objects_def nullptr_def)

subsection \<open>Copy assignment within the capacity\<close>

text \<open>
  C1. With \<open>S \<le> M \<le> C\<close> the copy assignment should leave \<open>dst[i] = src[i]\<close> for all
  \<open>i < M\<close>. For \<open>dst = [1]\<close> of capacity 2 and \<open>src = [7, 8]\<close> it returns with size 2,
  but slot 1 of \<open>dst\<close> is still raw memory: \<^verbatim>\<open>uninitialized_copy_n\<close> was given
  \<^verbatim>\<open>data_.GetAddress()\<close> as its destination, so the tail of \<open>src\<close> went to slot 0 and
  was then assigned over.
\<close>

theorem copy_assign_leaves_tail_unconstructed:
  "fst assign_one_from_two = Inr () \<and>
   Size (fst (snd assign_one_from_two) 0) = 2 \<and>
   Size (fst (snd assign_one_from_two) 1) = 2 \<and>
   deref (snd (snd assign_one_from_two)) (Vector_index (fst (snd assign_one_from_two) 1) 1)
     = Inr 8 \<and>
   deref (snd (snd assign_one_from_two)) (Vector_index (fst (snd assign_one_from_two) 0) 1)
     = Inl UndefinedBehaviour \<and>
   storage (fst (snd assign_one_from_two) 0) (snd (snd assign_one_from_two))
     = [Live 7, Uninit]"
  by code_simp

text \<open>
  C4. After every operation that returns, the first \<open>Size\<close> slots should be live and
  the others raw. The copy assignment of \<open>[7, 8, 9, 10]\<close> to \<open>[1, 2, 3]\<close> of capacity 4
  starts from two vectors that satisfy the invariant and returns with size 4 and the
  storage \<open>[7, 8, 9, raw]\<close>.
\<close>

theorem copy_assign_breaks_invariant:
  "Vector_inv (vector_at 1 4 3)
      (heap_of_two [Live (1::int), Live 2, Live 3, Uninit] [Live 7, Live 8, Live 9, Live 10]) \<and>
   Vector_inv (vector_at 2 4 4)
      (heap_of_two [Live (1::int), Live 2, Live 3, Uninit] [Live 7, Live 8, Live 9, Live 10]) \<and>
   fst assign_three_from_four = Inr () \<and>
   Size (fst (snd assign_three_from_four) 0) = 4 \<and>
   storage (fst (snd assign_three_from_four) 0) (snd (snd assign_three_from_four))
     = [Live 7, Live 8, Live 9, Uninit] \<and>
   \<not> Vector_inv (fst (snd assign_three_from_four) 0) (snd (snd assign_three_from_four))"
  by code_simp

end
